theory Spec2Isabelle
  imports Main "HOL-Library.Word" "HOL-Library.Log_Nat"
begin

unbundle bit_operations_syntax

section \<open>Time series records of the AirVantage connector (avcDaemon/timeseriesData.c)\<close>

text \<open>
  A shallow embedding of the time series accumulator: the sorted list of timestamps, the
  list of resources with their per-timestamp value tables, the CBOR encoder that is re-run
  after every added sample, the removal of a sample that does not fit, and the push.

  Collaborators that are not part of the repository are modelled from their interfaces:
  \<^item> the Legato lists (\<open>le_dls\<close>) are HOL lists, head first;
  \<^item> the Legato hash map (\<open>le_hashmap\<close>) is an association list searched with the
    equality function the map was created with;
  \<^item> the tinycbor encoder is a list of the items written so far, with the byte size of each
    item and the sticky out-of-memory state of a \<open>CborEncoder\<close>;
  \<^item> \<open>deflate\<close> and \<open>avcClient_Push\<close> are parameters of the push.
\<close>

subsection \<open>Types\<close>

type_synonym u64 = "64 word"
type_synonym i32 = "32 word"

datatype le_result_t = LE_OK | LE_NOT_FOUND | LE_OVERFLOW | LE_NO_MEMORY | LE_FAULT

datatype DataTypes_t =
  DATA_TYPE_NONE | DATA_TYPE_INT | DATA_TYPE_BOOL | DATA_TYPE_STRING | DATA_TYPE_FLOAT

text \<open>
  A C \<open>double\<close> that carries sample data.  Floating-point arithmetic is not evaluated:
  a double is either a value handed in by the caller (its 64 bit pattern), the double of
  an integer literal, or the difference or product the encoder forms from such values.
\<close>

datatype double = DBits u64 | DNat nat | DSub double double | DMul double double

text \<open>
  The union \<open>Data_t\<close>.  Which member is read is decided by the type of the resource
  the value is stored under; a value is only ever stored under a resource of its own type.
\<close>

datatype Data_t = IntValue i32 | FloatValue double | BoolValue bool | StrValue string

definition intValue :: "Data_t \<Rightarrow> i32" where
  "intValue d = (case d of IntValue v \<Rightarrow> v | _ \<Rightarrow> 0)"

definition floatValue :: "Data_t \<Rightarrow> double" where
  "floatValue d = (case d of FloatValue v \<Rightarrow> v | _ \<Rightarrow> DNat 0)"

definition boolValue :: "Data_t \<Rightarrow> bool" where
  "boolValue d = (case d of BoolValue v \<Rightarrow> v | _ \<Rightarrow> False)"

definition strValuePtr :: "Data_t \<Rightarrow> string" where
  "strValuePtr d = (case d of StrValue v \<Rightarrow> v | _ \<Rightarrow> [])"

text \<open>
  \<open>ResourceData_t\<close>.  The fields \<open>factor\<close> and \<open>timestampFactor\<close> are doubles in
  C; the source only ever stores the integer literals 0 and 1 in them, and they are
  modelled by the natural number they hold.
\<close>

record ResourceData_t =
  name :: string
  type :: DataTypes_t
  data :: "(u64 \<times> Data_t) list"
  factor :: nat

datatype cbor_item =
  CborMap nat | CborArray nat | CborText string | CborUInt u64 | CborInt int
  | CborDouble double | CborBool bool

text \<open>
  \<open>RecordData_t\<close>.  \<open>buffer\<close> is the content of \<open>bufferPtr\<close> as the sequence of CBOR
  items written by the last run of the encoder.
\<close>

record RecordData_t =
  timestampList :: "u64 list"
  resourceList :: "ResourceData_t list"
  buffer :: "cbor_item list"
  timestampFactor :: nat
  isEncoded :: bool

subsection \<open>The value table of a resource\<close>

text \<open>
  The keys of the table are pointers to \<open>uint64_t\<close> timestamps; the equality function
  reads them as doubles and compares with \<open>==\<close>.  On bit patterns: a NaN (exponent all
  ones, mantissa not zero) is equal to nothing, the two zeros are equal to each other, and
  otherwise two doubles are equal when their bits are.  The hash function
  \<open>HashmapHashDouble\<close> converts the double to \<open>size_t\<close>, so keys that are equal have the
  same hash (both zeros give 0) and a search through the whole table finds what a search
  through the bucket of the key finds.  An entry keeps the key it was created with when
  its value is replaced.
\<close>

definition double_is_nan :: "u64 \<Rightarrow> bool" where
  "double_is_nan k = (0x7FF0000000000000 < take_bit 63 k)"

definition double_is_zero :: "u64 \<Rightarrow> bool" where
  "double_is_zero k = (take_bit 63 k = 0)"

definition HashmapEqualsDouble :: "u64 \<Rightarrow> u64 \<Rightarrow> bool" where
  "HashmapEqualsDouble a b =
     (\<not> double_is_nan a \<and> \<not> double_is_nan b \<and> (a = b \<or> (double_is_zero a \<and> double_is_zero b)))"

fun le_hashmap_Get :: "(u64 \<times> 'v) list \<Rightarrow> u64 \<Rightarrow> 'v option" where
  "le_hashmap_Get [] k = None"
| "le_hashmap_Get ((k', v) # m) k =
     (if HashmapEqualsDouble k k' then Some v else le_hashmap_Get m k)"

definition le_hashmap_ContainsKey :: "(u64 \<times> 'v) list \<Rightarrow> u64 \<Rightarrow> bool" where
  "le_hashmap_ContainsKey m k = (le_hashmap_Get m k \<noteq> None)"

fun le_hashmap_Put :: "(u64 \<times> 'v) list \<Rightarrow> u64 \<Rightarrow> 'v \<Rightarrow> (u64 \<times> 'v) list" where
  "le_hashmap_Put [] k v = [(k, v)]"
| "le_hashmap_Put ((k', v') # m) k v =
     (if HashmapEqualsDouble k k' then (k', v) # m else (k', v') # le_hashmap_Put m k v)"

fun le_hashmap_Remove :: "(u64 \<times> 'v) list \<Rightarrow> u64 \<Rightarrow> (u64 \<times> 'v) list" where
  "le_hashmap_Remove [] k = []"
| "le_hashmap_Remove ((k', v') # m) k =
     (if HashmapEqualsDouble k k' then m else (k', v') # le_hashmap_Remove m k)"

definition le_hashmap_Size :: "(u64 \<times> 'v) list \<Rightarrow> nat" where
  "le_hashmap_Size m = length m"

subsection \<open>Timestamps\<close>

definition GetTimestampCount :: "RecordData_t \<Rightarrow> nat" where
  "GetTimestampCount recRef = length (timestampList recRef)"

definition GetResourceCount :: "RecordData_t \<Rightarrow> nat" where
  "GetResourceCount recRef = length (resourceList recRef)"

text \<open>\<open>GetTimestamp\<close>: the entry found, or \<open>None\<close> for \<open>LE_NOT_FOUND\<close>.\<close>

fun GetTimestamp_loop :: "u64 list \<Rightarrow> u64 \<Rightarrow> u64 option" where
  "GetTimestamp_loop [] timestamp = None"
| "GetTimestamp_loop (t # ts) timestamp =
     (if t = timestamp then Some t else GetTimestamp_loop ts timestamp)"

definition GetTimestamp :: "RecordData_t \<Rightarrow> u64 \<Rightarrow> u64 option" where
  "GetTimestamp recRef timestamp = GetTimestamp_loop (timestampList recRef) timestamp"

fun GetResourceDataTimestampCount_loop :: "ResourceData_t list \<Rightarrow> u64 \<Rightarrow> nat" where
  "GetResourceDataTimestampCount_loop [] timestampPtr = 0"
| "GetResourceDataTimestampCount_loop (r # rs) timestampPtr =
     (if le_hashmap_ContainsKey (data r) timestampPtr then 1 else 0)
       + GetResourceDataTimestampCount_loop rs timestampPtr"

definition GetResourceDataTimestampCount :: "RecordData_t \<Rightarrow> u64 \<Rightarrow> nat" where
  "GetResourceDataTimestampCount recRef timestampPtr =
     GetResourceDataTimestampCount_loop (resourceList recRef) timestampPtr"

text \<open>
  The loop of \<open>AddTimestamp\<close> on a list that is not empty: the walk stands on the first
  element and compares the new timestamp with the element after it only.
\<close>

fun AddTimestamp_loop :: "u64 list \<Rightarrow> u64 \<Rightarrow> u64 list" where
  "AddTimestamp_loop [] timestamp = [timestamp]"
| "AddTimestamp_loop [c] timestamp = [c, timestamp]"
| "AddTimestamp_loop (c # n # rest) timestamp =
     (if timestamp < n then c # timestamp # n # rest
      else c # AddTimestamp_loop (n # rest) timestamp)"

definition AddTimestamp :: "RecordData_t \<Rightarrow> u64 \<Rightarrow> RecordData_t" where
  "AddTimestamp recRef timestamp =
     (case GetTimestamp recRef timestamp of
        Some t \<Rightarrow> recRef
      | None \<Rightarrow>
          (if timestampList recRef = []
           then recRef\<lparr>timestampList := [timestamp]\<rparr>
           else recRef\<lparr>timestampList := AddTimestamp_loop (timestampList recRef) timestamp\<rparr>))"

subsection \<open>Clearing and deleting\<close>

definition ClearTimestamp :: "RecordData_t \<Rightarrow> RecordData_t" where
  "ClearTimestamp recRef = recRef\<lparr>timestampList := []\<rparr>"

definition ClearResource :: "RecordData_t \<Rightarrow> RecordData_t" where
  "ClearResource recRef = recRef\<lparr>resourceList := []\<rparr>"

text \<open>
  \<open>DeleteTimestamp\<close> steps through the timestamp list with
  \<open>le_dls_PeekNext(&recRef->resourceList, linkPtr)\<close>.  The lists are circular and the end
  is recognised by comparison with the head of the list that is passed, so with the
  resource list passed the walk does not stop after the last timestamp: it finds the entry
  when there is one and goes round forever when there is none (\<open>None\<close>).
\<close>

fun DeleteTimestamp_loop :: "u64 list \<Rightarrow> u64 \<Rightarrow> u64 list option" where
  "DeleteTimestamp_loop [] timestamp = None"
| "DeleteTimestamp_loop (t # ts) timestamp =
     (if t = timestamp then Some ts
      else map_option (\<lambda>ts'. t # ts') (DeleteTimestamp_loop ts timestamp))"

definition DeleteTimestamp :: "RecordData_t \<Rightarrow> u64 \<Rightarrow> RecordData_t option" where
  "DeleteTimestamp recRef timestamp =
     (if timestampList recRef = [] then Some recRef
      else map_option (\<lambda>ts'. recRef\<lparr>timestampList := ts'\<rparr>)
             (DeleteTimestamp_loop (timestampList recRef) timestamp))"

fun DeleteResourceData_loop :: "ResourceData_t list \<Rightarrow> string \<Rightarrow> u64 \<Rightarrow> ResourceData_t list" where
  "DeleteResourceData_loop [] path timestamp = []"
| "DeleteResourceData_loop (r # rs) path timestamp =
     (if path = name r then
        (case le_hashmap_Get (data r) timestamp of
           None \<Rightarrow> r # rs
         | Some valuePtr \<Rightarrow>
             (let d = le_hashmap_Remove (data r) timestamp
              in if le_hashmap_Size d = 0 then rs else r\<lparr>data := d\<rparr> # rs))
      else r # DeleteResourceData_loop rs path timestamp)"

definition DeleteResourceData :: "RecordData_t \<Rightarrow> string \<Rightarrow> u64 \<Rightarrow> RecordData_t" where
  "DeleteResourceData recRef path timestamp =
     recRef\<lparr>resourceList := DeleteResourceData_loop (resourceList recRef) path timestamp\<rparr>"

definition DeleteData :: "RecordData_t \<Rightarrow> string \<Rightarrow> u64 \<Rightarrow> RecordData_t option" where
  "DeleteData recRef path timestamp =
     (case GetTimestamp recRef timestamp of
        None \<Rightarrow> Some recRef
      | Some t \<Rightarrow>
          (let recRef1 = DeleteResourceData recRef path t
           in if GetResourceDataTimestampCount recRef1 t = 0
              then DeleteTimestamp recRef1 t
              else Some recRef1))"

definition ResetRecord :: "RecordData_t \<Rightarrow> RecordData_t" where
  "ResetRecord recRef =
     (ClearTimestamp (ClearResource recRef))\<lparr>timestampFactor := 1, isEncoded := False\<rparr>"

subsection \<open>The CBOR encoder\<close>

definition MAX_CBOR_BUFFER_NUMBYTES :: nat where
  "MAX_CBOR_BUFFER_NUMBYTES = 4096"

text \<open>Modelled from the spec: the macro \<open>NUM_TIME_SERIES_MAPS\<close> is not defined in the
  sources at hand; the spec gives the top-level container exactly three members.\<close>

definition NUM_TIME_SERIES_MAPS :: nat where
  "NUM_TIME_SERIES_MAPS = 3"

datatype CborError = CborNoError | CborUnknownError | CborErrorOutOfMemory

text \<open>
  A \<open>CborEncoder\<close> writing into the record's buffer: the items written, and whether an
  earlier write did not fit.  tinycbor clears the end pointer of an encoder at the first
  write that does not fit, and every later write through it fails as well.
\<close>

record CborEncoder =
  written :: "cbor_item list"
  out_of_memory :: bool

definition cbor_header_size :: "nat \<Rightarrow> nat" where
  "cbor_header_size n =
     (if n < 24 then 1 else if n < 256 then 2 else if n < 65536 then 3
      else if n < 4294967296 then 5 else 9)"

fun cbor_item_size :: "cbor_item \<Rightarrow> nat" where
  "cbor_item_size (CborMap n) = cbor_header_size n"
| "cbor_item_size (CborArray n) = cbor_header_size n"
| "cbor_item_size (CborText s) = cbor_header_size (length s) + length s"
| "cbor_item_size (CborUInt v) = cbor_header_size (unat v)"
| "cbor_item_size (CborInt i) = cbor_header_size (if i < 0 then nat (- i - 1) else nat i)"
| "cbor_item_size (CborDouble d) = 9"
| "cbor_item_size (CborBool b) = 1"

definition cbor_buffer_size :: "cbor_item list \<Rightarrow> nat" where
  "cbor_buffer_size its = sum_list (map cbor_item_size its)"

definition cbor_encoder_init :: CborEncoder where
  "cbor_encoder_init = \<lparr>written = [], out_of_memory = False\<rparr>"

definition append_to_buffer :: "CborEncoder \<Rightarrow> cbor_item \<Rightarrow> CborError \<times> CborEncoder" where
  "append_to_buffer e it =
     (if out_of_memory e \<or> MAX_CBOR_BUFFER_NUMBYTES < cbor_buffer_size (written e) + cbor_item_size it
      then (CborErrorOutOfMemory, e\<lparr>out_of_memory := True\<rparr>)
      else (CborNoError, e\<lparr>written := written e @ [it]\<rparr>))"

definition cbor_encoder_create_map :: "CborEncoder \<Rightarrow> nat \<Rightarrow> CborError \<times> CborEncoder" where
  "cbor_encoder_create_map e n = append_to_buffer e (CborMap n)"

definition cbor_encoder_create_array :: "CborEncoder \<Rightarrow> nat \<Rightarrow> CborError \<times> CborEncoder" where
  "cbor_encoder_create_array e n = append_to_buffer e (CborArray n)"

definition cbor_encode_text_string :: "CborEncoder \<Rightarrow> string \<Rightarrow> CborError \<times> CborEncoder" where
  "cbor_encode_text_string e s = append_to_buffer e (CborText s)"

definition cbor_encode_uint :: "CborEncoder \<Rightarrow> u64 \<Rightarrow> CborError \<times> CborEncoder" where
  "cbor_encode_uint e v = append_to_buffer e (CborUInt v)"

definition cbor_encode_int :: "CborEncoder \<Rightarrow> int \<Rightarrow> CborError \<times> CborEncoder" where
  "cbor_encode_int e i = append_to_buffer e (CborInt i)"

definition cbor_encode_double :: "CborEncoder \<Rightarrow> double \<Rightarrow> CborError \<times> CborEncoder" where
  "cbor_encode_double e d = append_to_buffer e (CborDouble d)"

definition cbor_encode_boolean :: "CborEncoder \<Rightarrow> bool \<Rightarrow> CborError \<times> CborEncoder" where
  "cbor_encode_boolean e b = append_to_buffer e (CborBool b)"

text \<open>The macro: leave the function with \<open>LE_NO_MEMORY\<close> or \<open>LE_FAULT\<close> on an error,
  go on otherwise.\<close>

definition RETURN_IF_CBOR_ERROR ::
  "CborError \<times> CborEncoder \<Rightarrow> (CborEncoder \<Rightarrow> le_result_t \<times> CborEncoder) \<Rightarrow> le_result_t \<times> CborEncoder" where
  "RETURN_IF_CBOR_ERROR r k =
     (case r of (err, e) \<Rightarrow>
        if err \<noteq> CborNoError
        then (if err = CborErrorOutOfMemory then (LE_NO_MEMORY, e) else (LE_FAULT, e))
        else k e)"

subsection \<open>Arithmetic that goes through doubles\<close>

text \<open>
  The double nearest to a natural number (ties to even): exact below \<open>2^53\<close>, rounded to
  53 significant bits above.
\<close>

definition round_double :: "nat \<Rightarrow> nat" where
  "round_double n =
     (if n < 2 ^ 53 then n
      else (let e = floorlog 2 n - 53; q = n div 2 ^ e; r = n mod 2 ^ e; h = 2 ^ (e - 1)
            in if r < h \<or> (r = h \<and> even q) then q * 2 ^ e else (q + 1) * 2 ^ e))"

text \<open>
  \<open>n * factor\<close> computed in double and stored in a \<open>uint64_t\<close>.  (A product of \<open>2^64\<close>
  or more has no defined conversion in C; the model wraps.)
\<close>

definition uint_times_factor :: "nat \<Rightarrow> nat \<Rightarrow> u64" where
  "uint_times_factor n f = of_nat (round_double (round_double n * f))"

text \<open>
  \<open>v * factor\<close> for an \<open>int\<close> \<open>v\<close>, computed in double and stored in an \<open>int\<close>: exact,
  as the factor is 0 or 1.
\<close>

definition int_times_factor :: "i32 \<Rightarrow> nat \<Rightarrow> i32" where
  "int_times_factor v f = word_of_int (sint v * int f)"

text \<open>\<open>x * factor\<close> in double: multiplication by 1.0 gives \<open>x\<close> back.\<close>

definition double_times_factor :: "double \<Rightarrow> nat \<Rightarrow> double" where
  "double_times_factor x f = (if f = 1 then x else DMul x (DNat f))"

subsection \<open>Encoding a record\<close>

definition GetEncodedDataSize :: "RecordData_t \<Rightarrow> nat" where
  "GetEncodedDataSize recRef = (if \<not> isEncoded recRef then 0 else cbor_buffer_size (buffer recRef))"

fun EncodeResourceNameToCborArray_loop ::
  "ResourceData_t list \<Rightarrow> CborEncoder \<Rightarrow> le_result_t \<times> CborEncoder" where
  "EncodeResourceNameToCborArray_loop [] e = (LE_OK, e)"
| "EncodeResourceNameToCborArray_loop (r # rs) e =
     RETURN_IF_CBOR_ERROR (cbor_encode_text_string e (name r))
       (\<lambda>e. EncodeResourceNameToCborArray_loop rs e)"

definition EncodeResourceNameToCborArray ::
  "RecordData_t \<Rightarrow> CborEncoder \<Rightarrow> le_result_t \<times> CborEncoder" where
  "EncodeResourceNameToCborArray recRef e =
     EncodeResourceNameToCborArray_loop (resourceList recRef) e"

fun EncodeFactorToCborArray_loop ::
  "ResourceData_t list \<Rightarrow> CborEncoder \<Rightarrow> le_result_t \<times> CborEncoder" where
  "EncodeFactorToCborArray_loop [] e = (LE_OK, e)"
| "EncodeFactorToCborArray_loop (r # rs) e =
     RETURN_IF_CBOR_ERROR (cbor_encode_double e (DNat (factor r)))
       (\<lambda>e. EncodeFactorToCborArray_loop rs e)"

definition EncodeFactorToCborArray ::
  "RecordData_t \<Rightarrow> CborEncoder \<Rightarrow> le_result_t \<times> CborEncoder" where
  "EncodeFactorToCborArray recRef e =
     RETURN_IF_CBOR_ERROR (cbor_encode_double e (DNat (timestampFactor recRef)))
       (\<lambda>e. EncodeFactorToCborArray_loop (resourceList recRef) e)"

definition EncodeResourceDefaultValue ::
  "ResourceData_t \<Rightarrow> CborEncoder \<Rightarrow> le_result_t \<times> CborEncoder" where
  "EncodeResourceDefaultValue resourceDataPtr e =
     (case type resourceDataPtr of
        DATA_TYPE_INT \<Rightarrow> RETURN_IF_CBOR_ERROR (cbor_encode_int e 0) (\<lambda>e. (LE_OK, e))
      | DATA_TYPE_FLOAT \<Rightarrow> RETURN_IF_CBOR_ERROR (cbor_encode_double e (DNat 0)) (\<lambda>e. (LE_OK, e))
      | DATA_TYPE_BOOL \<Rightarrow> RETURN_IF_CBOR_ERROR (cbor_encode_boolean e False) (\<lambda>e. (LE_OK, e))
      | DATA_TYPE_STRING \<Rightarrow> RETURN_IF_CBOR_ERROR (cbor_encode_text_string e []) (\<lambda>e. (LE_OK, e))
      | DATA_TYPE_NONE \<Rightarrow> (LE_OK, e))"

text \<open>
  \<open>EncodeResourceDeltaValue\<close> is only called for a resource whose table contains the
  current timestamp; \<open>valuePtr\<close> is the value that lookup finds (the function's own
  \<open>le_hashmap_Get\<close> on the same table and key).  \<open>prevTimestampPtr\<close> is \<open>None\<close> for
  the first row.
\<close>

definition EncodeResourceDeltaValue ::
  "ResourceData_t \<Rightarrow> Data_t \<Rightarrow> u64 option \<Rightarrow> CborEncoder \<Rightarrow> le_result_t \<times> CborEncoder" where
  "EncodeResourceDeltaValue resourceDataPtr valuePtr prevTimestampPtr e =
     (case type resourceDataPtr of
        DATA_TYPE_INT \<Rightarrow>
          (let intDelta =
             (case prevTimestampPtr of
                None \<Rightarrow> int_times_factor (intValue valuePtr) (factor resourceDataPtr)
              | Some p \<Rightarrow>
                  (let prevIntValue =
                     (case le_hashmap_Get (data resourceDataPtr) p of
                        None \<Rightarrow> 0
                      | Some prevValuePtr \<Rightarrow> intValue prevValuePtr)
                   in int_times_factor (intValue valuePtr - prevIntValue) (factor resourceDataPtr)))
           in RETURN_IF_CBOR_ERROR (cbor_encode_int e (sint intDelta)) (\<lambda>e. (LE_OK, e)))
      | DATA_TYPE_FLOAT \<Rightarrow>
          (let floatDelta =
             (case prevTimestampPtr of
                None \<Rightarrow> floatValue valuePtr
              | Some p \<Rightarrow>
                  (let prevFloatValue =
                     (case le_hashmap_Get (data resourceDataPtr) p of
                        None \<Rightarrow> DNat 0
                      | Some prevValuePtr \<Rightarrow> floatValue prevValuePtr)
                   in double_times_factor (DSub (floatValue valuePtr) prevFloatValue)
                        (factor resourceDataPtr)))
           in RETURN_IF_CBOR_ERROR (cbor_encode_double e floatDelta) (\<lambda>e. (LE_OK, e)))
      | DATA_TYPE_BOOL \<Rightarrow>
          RETURN_IF_CBOR_ERROR (cbor_encode_boolean e (boolValue valuePtr)) (\<lambda>e. (LE_OK, e))
      | DATA_TYPE_STRING \<Rightarrow>
          RETURN_IF_CBOR_ERROR (cbor_encode_text_string e (strValuePtr valuePtr)) (\<lambda>e. (LE_OK, e))
      | DATA_TYPE_NONE \<Rightarrow> (LE_OK, e))"

text \<open>The inner loop over the resources: the result of each resource replaces the one
  before.\<close>

fun EncodeResourceData_resources ::
  "ResourceData_t list \<Rightarrow> u64 \<Rightarrow> u64 option \<Rightarrow> le_result_t \<Rightarrow> CborEncoder \<Rightarrow> le_result_t \<times> CborEncoder" where
  "EncodeResourceData_resources [] timestampPtr prevTimestampPtr result e = (result, e)"
| "EncodeResourceData_resources (r # rs) timestampPtr prevTimestampPtr result e =
     (case (case le_hashmap_Get (data r) timestampPtr of
              None \<Rightarrow> EncodeResourceDefaultValue r e
            | Some valuePtr \<Rightarrow> EncodeResourceDeltaValue r valuePtr prevTimestampPtr e) of
        (result', e') \<Rightarrow> EncodeResourceData_resources rs timestampPtr prevTimestampPtr result' e')"

text \<open>The outer loop over the timestamps.  The difference to the previous timestamp is
  stored in a \<open>uint\<close> (32 bits) before it is multiplied.\<close>

fun EncodeResourceData_timestamps ::
  "RecordData_t \<Rightarrow> u64 list \<Rightarrow> u64 option \<Rightarrow> le_result_t \<Rightarrow> CborEncoder \<Rightarrow> le_result_t \<times> CborEncoder" where
  "EncodeResourceData_timestamps recRef [] prevTimestampPtr result e = (result, e)"
| "EncodeResourceData_timestamps recRef (t # ts) prevTimestampPtr result e =
     (let timestamp =
        (case prevTimestampPtr of
           None \<Rightarrow> uint_times_factor (unat t) (timestampFactor recRef)
         | Some p \<Rightarrow>
             (let deltaTimestamp = (ucast (t - p) :: 32 word)
              in uint_times_factor (unat deltaTimestamp) (timestampFactor recRef)))
      in RETURN_IF_CBOR_ERROR (cbor_encode_uint e timestamp)
           (\<lambda>e. case EncodeResourceData_resources (resourceList recRef) t prevTimestampPtr result e of
                   (result', e') \<Rightarrow> EncodeResourceData_timestamps recRef ts (Some t) result' e'))"

definition EncodeResourceDataToCborArray ::
  "RecordData_t \<Rightarrow> CborEncoder \<Rightarrow> le_result_t \<times> CborEncoder" where
  "EncodeResourceDataToCborArray recRef e =
     EncodeResourceData_timestamps recRef (timestampList recRef) None LE_OK e"

text \<open>
  \<open>Encode\<close>.  The five encoder structures of the record write one after the other into the
  same buffer; closing a container of known length writes nothing.  The error of creating
  the sample array is looked at only at the very end.
\<close>

definition Encode_stream :: "RecordData_t \<Rightarrow> le_result_t \<times> CborEncoder" where
  "Encode_stream recRef =
     RETURN_IF_CBOR_ERROR (cbor_encoder_create_map cbor_encoder_init NUM_TIME_SERIES_MAPS) (\<lambda>e.
     RETURN_IF_CBOR_ERROR (cbor_encode_text_string e ''h'') (\<lambda>e.
     RETURN_IF_CBOR_ERROR (cbor_encoder_create_array e (GetResourceCount recRef)) (\<lambda>e.
     case EncodeResourceNameToCborArray recRef e of (result, e) \<Rightarrow>
     if result \<noteq> LE_OK then (result, e) else
     RETURN_IF_CBOR_ERROR (cbor_encode_text_string e ''f'') (\<lambda>e.
     RETURN_IF_CBOR_ERROR (cbor_encoder_create_array e (GetResourceCount recRef + 1)) (\<lambda>e.
     case EncodeFactorToCborArray recRef e of (result, e) \<Rightarrow>
     if result \<noteq> LE_OK then (result, e) else
     RETURN_IF_CBOR_ERROR (cbor_encode_text_string e ''s'') (\<lambda>e.
     case cbor_encoder_create_array e ((GetResourceCount recRef + 1) * GetTimestampCount recRef) of
       (err, e) \<Rightarrow>
     case EncodeResourceDataToCborArray recRef e of (result, e) \<Rightarrow>
     if result \<noteq> LE_OK then (result, e) else
     RETURN_IF_CBOR_ERROR (err, e) (\<lambda>e. (result, e))))))))"

definition Encode :: "RecordData_t \<Rightarrow> le_result_t \<times> RecordData_t" where
  "Encode recRef =
     (if \<not> isEncoded recRef then
        (case Encode_stream recRef of
           (result, e) \<Rightarrow>
             if result = LE_OK
             then (LE_OK, recRef\<lparr>buffer := written e, isEncoded := True\<rparr>)
             else (result, recRef\<lparr>buffer := written e\<rparr>))
      else (LE_OK, recRef))"

subsection \<open>Creating records and resources\<close>

definition timeSeries_Create :: RecordData_t where
  "timeSeries_Create =
     \<lparr>timestampList = [], resourceList = [], buffer = [], timestampFactor = 1, isEncoded = False\<rparr>"

text \<open>
  \<open>le_utf8_Copy\<close> of the Legato framework copies whole UTF-8 characters while they fit
  into a destination of \<open>destSize\<close> bytes together with the terminating zero, and reports
  \<open>LE_OVERFLOW\<close> when it had to stop early.  A byte that cannot start a character empties
  the destination.
\<close>

definition le_utf8_NumBytesInChar :: "char \<Rightarrow> nat" where
  "le_utf8_NumBytesInChar c =
     (let b = (of_char c :: nat)
      in if b < 128 then 1 else if 192 \<le> b \<and> b < 224 then 2
         else if 224 \<le> b \<and> b < 240 then 3 else if 240 \<le> b \<and> b < 248 then 4 else 0)"

function le_utf8_Copy_loop :: "string \<Rightarrow> string \<Rightarrow> nat \<Rightarrow> string \<times> le_result_t" where
  "le_utf8_Copy_loop destStr [] destSize = (destStr, LE_OK)"
| "le_utf8_Copy_loop destStr (c # cs) destSize =
     (let charLength = le_utf8_NumBytesInChar c
      in if charLength = 0 then ([], LE_OK)
         else if charLength + length destStr \<ge> destSize then (destStr, LE_OVERFLOW)
         else le_utf8_Copy_loop (destStr @ take charLength (c # cs)) (drop charLength (c # cs)) destSize)"
  by pat_completeness auto
termination
  by (relation "measure (\<lambda>(destStr, srcStr, destSize). length srcStr)") auto

definition le_utf8_Copy :: "string \<Rightarrow> nat \<Rightarrow> string \<times> le_result_t" where
  "le_utf8_Copy srcStr destSize = le_utf8_Copy_loop [] srcStr destSize"

text \<open>
  \<open>GetResourceData\<close>: the position of the resource in the list on \<open>LE_OK\<close>, the error
  otherwise.
\<close>

fun GetResourceData_loop :: "ResourceData_t list \<Rightarrow> string \<Rightarrow> DataTypes_t \<Rightarrow> nat \<Rightarrow> le_result_t + nat" where
  "GetResourceData_loop [] path ty i = Inl LE_NOT_FOUND"
| "GetResourceData_loop (r # rs) path ty i =
     (if name r = path then (if type r \<noteq> ty then Inl LE_FAULT else Inr i)
      else GetResourceData_loop rs path ty (Suc i))"

definition GetResourceData :: "RecordData_t \<Rightarrow> string \<Rightarrow> DataTypes_t \<Rightarrow> le_result_t + nat" where
  "GetResourceData recRef path ty = GetResourceData_loop (resourceList recRef) path ty 0"

text \<open>
  \<open>CreateResourceData\<close>.  The bound \<open>LE_AVDATA_PATH_NAME_LEN\<close> comes from the interface
  definition of \<open>le_avdata\<close>, which is not among the sources; it is the first argument.
\<close>

definition CreateResourceData ::
  "nat \<Rightarrow> RecordData_t \<Rightarrow> string \<Rightarrow> DataTypes_t \<Rightarrow> le_result_t \<times> RecordData_t" where
  "CreateResourceData LE_AVDATA_PATH_NAME_LEN recRef path ty =
     (case le_utf8_Copy path LE_AVDATA_PATH_NAME_LEN of
        (nm, res) \<Rightarrow>
          if res = LE_OVERFLOW then (LE_OVERFLOW, recRef)
          else (LE_OK, recRef\<lparr>resourceList := resourceList recRef @
                  [\<lparr>name = nm, type = ty, data = [],
                    factor = (if ty = DATA_TYPE_STRING \<or> ty = DATA_TYPE_BOOL then 0 else 1)\<rparr>]\<rparr>))"

subsection \<open>Adding a sample\<close>

fun resource_at :: "ResourceData_t list \<Rightarrow> nat \<Rightarrow> ResourceData_t option" where
  "resource_at [] i = None"
| "resource_at (r # rs) 0 = Some r"
| "resource_at (r # rs) (Suc i) = resource_at rs i"

text \<open>
  The common body of \<open>AddIntResourceData\<close>, \<open>AddFloatResourceData\<close>,
  \<open>AddBoolResourceData\<close> and \<open>AddStringResourceData\<close>, which differ in the member of
  \<open>Data_t\<close> they fill.  \<open>rdataPtr\<close> is the position of the resource.  The result is
  \<open>None\<close> when the call does not return.
\<close>

definition AddResourceData ::
  "RecordData_t \<Rightarrow> nat \<Rightarrow> Data_t \<Rightarrow> u64 \<Rightarrow> (le_result_t \<times> RecordData_t) option" where
  "AddResourceData recRef rdataPtr dataPtr timestamp =
     (case GetTimestamp recRef timestamp of
        None \<Rightarrow> Some (LE_FAULT, recRef)
      | Some timestampPtr \<Rightarrow>
          (case resource_at (resourceList recRef) rdataPtr of
             None \<Rightarrow> None
           | Some r \<Rightarrow>
               (let recRef1 = recRef\<lparr>resourceList :=
                                (resourceList recRef)
                                  [rdataPtr := r\<lparr>data := le_hashmap_Put (data r) timestampPtr dataPtr\<rparr>],
                              isEncoded := False\<rparr>
                in case Encode recRef1 of
                     (result, recRef2) \<Rightarrow>
                       if result = LE_NO_MEMORY
                       then map_option (\<lambda>recRef3. (result, recRef3\<lparr>isEncoded := False\<rparr>))
                              (DeleteData recRef2 (name r) timestamp)
                       else Some (result, recRef2))))"

definition AddIntResourceData ::
  "RecordData_t \<Rightarrow> nat \<Rightarrow> i32 \<Rightarrow> u64 \<Rightarrow> (le_result_t \<times> RecordData_t) option" where
  "AddIntResourceData recRef rdataPtr v timestamp =
     AddResourceData recRef rdataPtr (IntValue v) timestamp"

definition AddFloatResourceData ::
  "RecordData_t \<Rightarrow> nat \<Rightarrow> double \<Rightarrow> u64 \<Rightarrow> (le_result_t \<times> RecordData_t) option" where
  "AddFloatResourceData recRef rdataPtr v timestamp =
     AddResourceData recRef rdataPtr (FloatValue v) timestamp"

definition AddBoolResourceData ::
  "RecordData_t \<Rightarrow> nat \<Rightarrow> bool \<Rightarrow> u64 \<Rightarrow> (le_result_t \<times> RecordData_t) option" where
  "AddBoolResourceData recRef rdataPtr v timestamp =
     AddResourceData recRef rdataPtr (BoolValue v) timestamp"

text \<open>The string is copied into a block of \<open>LE_AVDATA_STRING_VALUE_LEN\<close> bytes (the
  first argument; the result of the copy is not looked at).\<close>

definition AddStringResourceData ::
  "nat \<Rightarrow> RecordData_t \<Rightarrow> nat \<Rightarrow> string \<Rightarrow> u64 \<Rightarrow> (le_result_t \<times> RecordData_t) option" where
  "AddStringResourceData LE_AVDATA_STRING_VALUE_LEN recRef rdataPtr v timestamp =
     AddResourceData recRef rdataPtr
       (StrValue (fst (le_utf8_Copy v LE_AVDATA_STRING_VALUE_LEN))) timestamp"

text \<open>
  The common body of \<open>timeSeries_AddInt\<close>, \<open>timeSeries_AddFloat\<close>, \<open>timeSeries_AddBool\<close>
  and \<open>timeSeries_AddString\<close>: \<open>ty\<close> is the data type the function asks for and \<open>add\<close>
  its \<open>Add...ResourceData\<close> call.
\<close>

definition timeSeries_Add ::
  "nat \<Rightarrow> DataTypes_t \<Rightarrow> (RecordData_t \<Rightarrow> nat \<Rightarrow> (le_result_t \<times> RecordData_t) option)
     \<Rightarrow> RecordData_t \<Rightarrow> string \<Rightarrow> u64 \<Rightarrow> (le_result_t \<times> RecordData_t) option" where
  "timeSeries_Add LE_AVDATA_PATH_NAME_LEN ty add recRef path timestamp =
     (case GetResourceData recRef path ty of
        Inl LE_FAULT \<Rightarrow> Some (LE_FAULT, recRef)
      | Inl _ \<Rightarrow>
          (let recRef1 = AddTimestamp recRef timestamp
           in case CreateResourceData LE_AVDATA_PATH_NAME_LEN recRef1 path ty of
                (result, recRef2) \<Rightarrow>
                  if result \<noteq> LE_OK then Some (result, recRef2)
                  else (case GetResourceData recRef2 path ty of
                          Inl result \<Rightarrow> Some (result, recRef2)
                        | Inr resourceDataPtr \<Rightarrow> add recRef2 resourceDataPtr))
      | Inr resourceDataPtr \<Rightarrow> add (AddTimestamp recRef timestamp) resourceDataPtr)"

definition timeSeries_AddInt ::
  "nat \<Rightarrow> RecordData_t \<Rightarrow> string \<Rightarrow> i32 \<Rightarrow> u64 \<Rightarrow> (le_result_t \<times> RecordData_t) option" where
  "timeSeries_AddInt LE_AVDATA_PATH_NAME_LEN recRef path v timestamp =
     timeSeries_Add LE_AVDATA_PATH_NAME_LEN DATA_TYPE_INT
       (\<lambda>recRef rdataPtr. AddIntResourceData recRef rdataPtr v timestamp) recRef path timestamp"

definition timeSeries_AddFloat ::
  "nat \<Rightarrow> RecordData_t \<Rightarrow> string \<Rightarrow> double \<Rightarrow> u64 \<Rightarrow> (le_result_t \<times> RecordData_t) option" where
  "timeSeries_AddFloat LE_AVDATA_PATH_NAME_LEN recRef path v timestamp =
     timeSeries_Add LE_AVDATA_PATH_NAME_LEN DATA_TYPE_FLOAT
       (\<lambda>recRef rdataPtr. AddFloatResourceData recRef rdataPtr v timestamp) recRef path timestamp"

definition timeSeries_AddBool ::
  "nat \<Rightarrow> RecordData_t \<Rightarrow> string \<Rightarrow> bool \<Rightarrow> u64 \<Rightarrow> (le_result_t \<times> RecordData_t) option" where
  "timeSeries_AddBool LE_AVDATA_PATH_NAME_LEN recRef path v timestamp =
     timeSeries_Add LE_AVDATA_PATH_NAME_LEN DATA_TYPE_BOOL
       (\<lambda>recRef rdataPtr. AddBoolResourceData recRef rdataPtr v timestamp) recRef path timestamp"

definition timeSeries_AddString ::
  "nat \<Rightarrow> nat \<Rightarrow> RecordData_t \<Rightarrow> string \<Rightarrow> string \<Rightarrow> u64 \<Rightarrow> (le_result_t \<times> RecordData_t) option" where
  "timeSeries_AddString LE_AVDATA_PATH_NAME_LEN LE_AVDATA_STRING_VALUE_LEN recRef path v timestamp =
     timeSeries_Add LE_AVDATA_PATH_NAME_LEN DATA_TYPE_STRING
       (\<lambda>recRef rdataPtr. AddStringResourceData LE_AVDATA_STRING_VALUE_LEN recRef rdataPtr v timestamp)
       recRef path timestamp"

subsection \<open>Pushing a record\<close>

text \<open>
  \<open>timeSeries_PushRecord\<close>.  \<open>deflate\<close> stands for the zlib calls that compress the
  encoded data and \<open>avcClient_Push\<close> for the send function of the AirVantage client, with
  the result it returns for the compressed data.  \<open>GetEncodedData\<close> is the input handed
  to zlib: the first \<open>GetEncodedDataSize\<close> bytes of the buffer.
\<close>

definition GetEncodedData :: "RecordData_t \<Rightarrow> cbor_item list" where
  "GetEncodedData recRef = (if GetEncodedDataSize recRef = 0 then [] else buffer recRef)"

definition timeSeries_PushRecord ::
  "(cbor_item list \<Rightarrow> 'c) \<Rightarrow> ('c \<Rightarrow> le_result_t) \<Rightarrow> RecordData_t \<Rightarrow> le_result_t \<times> RecordData_t" where
  "timeSeries_PushRecord deflate avcClient_Push recRef =
     (case Encode recRef of
        (result, recRef1) \<Rightarrow>
          if result = LE_OK then
            (let compressedBuf = deflate (GetEncodedData recRef1);
                 result = avcClient_Push compressedBuf
             in if result = LE_OK then (result, ResetRecord recRef1) else (result, recRef1))
          else (result, recRef1))"

subsection \<open>Sequences of calls\<close>

text \<open>A sample as the four entry points take it, and the entry point for each kind.\<close>

datatype sample_value = IntSample i32 | FloatSample double | BoolSample bool | StringSample string

definition sample_type :: "sample_value \<Rightarrow> DataTypes_t" where
  "sample_type v =
     (case v of IntSample i \<Rightarrow> DATA_TYPE_INT | FloatSample d \<Rightarrow> DATA_TYPE_FLOAT
      | BoolSample b \<Rightarrow> DATA_TYPE_BOOL | StringSample s \<Rightarrow> DATA_TYPE_STRING)"

definition add_sample ::
  "nat \<Rightarrow> nat \<Rightarrow> RecordData_t \<Rightarrow> string \<Rightarrow> sample_value \<Rightarrow> u64
     \<Rightarrow> (le_result_t \<times> RecordData_t) option" where
  "add_sample P S recRef path v timestamp =
     (case v of
        IntSample i \<Rightarrow> timeSeries_AddInt P recRef path i timestamp
      | FloatSample d \<Rightarrow> timeSeries_AddFloat P recRef path d timestamp
      | BoolSample b \<Rightarrow> timeSeries_AddBool P recRef path b timestamp
      | StringSample s \<Rightarrow> timeSeries_AddString P S recRef path s timestamp)"

text \<open>A sequence of calls on a record: the results in order and the record at the end.\<close>

fun add_samples ::
  "nat \<Rightarrow> nat \<Rightarrow> RecordData_t \<Rightarrow> (string \<times> sample_value \<times> u64) list
     \<Rightarrow> (le_result_t list \<times> RecordData_t) option" where
  "add_samples P S recRef [] = Some ([], recRef)"
| "add_samples P S recRef ((path, v, timestamp) # calls) =
     (case add_sample P S recRef path v timestamp of
        None \<Rightarrow> None
      | Some (result, recRef') \<Rightarrow>
          map_option (\<lambda>(results, recRef''). (result # results, recRef''))
            (add_samples P S recRef' calls))"

text \<open>The value each kind of sample stores in the table of its resource.\<close>

definition sample_data :: "nat \<Rightarrow> sample_value \<Rightarrow> Data_t" where
  "sample_data S v =
     (case v of IntSample i \<Rightarrow> IntValue i | FloatSample d \<Rightarrow> FloatValue d
      | BoolSample b \<Rightarrow> BoolValue b | StringSample s \<Rightarrow> StrValue (fst (le_utf8_Copy s S)))"

subsection \<open>The encoded output as the specification describes it\<close>

text \<open>
  The item for a resource that has no value in a row, and the item for one that has:
  for int and float the difference to the value in the row before (0 when the resource has
  none there, no subtraction in the first row) times the factor, for bool and string the
  value itself.
\<close>

definition default_item :: "DataTypes_t \<Rightarrow> cbor_item" where
  "default_item ty =
     (case ty of
        DATA_TYPE_INT \<Rightarrow> CborInt 0
      | DATA_TYPE_FLOAT \<Rightarrow> CborDouble (DNat 0)
      | DATA_TYPE_BOOL \<Rightarrow> CborBool False
      | DATA_TYPE_STRING \<Rightarrow> CborText []
      | DATA_TYPE_NONE \<Rightarrow> CborInt 0)"

definition previous_row_int :: "ResourceData_t \<Rightarrow> u64 \<Rightarrow> i32" where
  "previous_row_int r p = (case le_hashmap_Get (data r) p of None \<Rightarrow> 0 | Some pv \<Rightarrow> intValue pv)"

definition previous_row_float :: "ResourceData_t \<Rightarrow> u64 \<Rightarrow> double" where
  "previous_row_float r p =
     (case le_hashmap_Get (data r) p of None \<Rightarrow> DNat 0 | Some pv \<Rightarrow> floatValue pv)"

definition value_item :: "ResourceData_t \<Rightarrow> Data_t \<Rightarrow> u64 option \<Rightarrow> cbor_item" where
  "value_item r cur prev =
     (case type r of
        DATA_TYPE_INT \<Rightarrow>
          (case prev of
             None \<Rightarrow> CborInt (sint (int_times_factor (intValue cur) (factor r)))
           | Some p \<Rightarrow>
               CborInt (sint (int_times_factor (intValue cur - previous_row_int r p) (factor r))))
      | DATA_TYPE_FLOAT \<Rightarrow>
          (case prev of
             None \<Rightarrow> CborDouble (double_times_factor (floatValue cur) (factor r))
           | Some p \<Rightarrow>
               CborDouble (double_times_factor
                             (DSub (floatValue cur) (previous_row_float r p)) (factor r)))
      | DATA_TYPE_BOOL \<Rightarrow> CborBool (boolValue cur)
      | DATA_TYPE_STRING \<Rightarrow> CborText (strValuePtr cur)
      | DATA_TYPE_NONE \<Rightarrow> CborInt 0)"

definition cell_item :: "ResourceData_t \<Rightarrow> u64 \<Rightarrow> u64 option \<Rightarrow> cbor_item" where
  "cell_item r t prev =
     (case le_hashmap_Get (data r) t of
        None \<Rightarrow> default_item (type r)
      | Some cur \<Rightarrow> value_item r cur prev)"

text \<open>The timestamp item of a row, as the code computes it.\<close>

definition timestamp_item :: "nat \<Rightarrow> u64 \<Rightarrow> u64 option \<Rightarrow> cbor_item" where
  "timestamp_item tf t prev =
     (case prev of
        None \<Rightarrow> CborUInt (uint_times_factor (unat t) tf)
      | Some p \<Rightarrow> CborUInt (uint_times_factor (unat (ucast (t - p) :: 32 word)) tf))"

fun sample_rows :: "RecordData_t \<Rightarrow> u64 list \<Rightarrow> u64 option \<Rightarrow> cbor_item list" where
  "sample_rows recRef [] prev = []"
| "sample_rows recRef (t # ts) prev =
     (timestamp_item (timestampFactor recRef) t prev
        # map (\<lambda>r. cell_item r t prev) (resourceList recRef))
     @ sample_rows recRef ts (Some t)"

definition encode_items :: "RecordData_t \<Rightarrow> cbor_item list" where
  "encode_items recRef =
     [CborMap NUM_TIME_SERIES_MAPS, CborText ''h'', CborArray (length (resourceList recRef))]
     @ map (\<lambda>r. CborText (name r)) (resourceList recRef)
     @ [CborText ''f'', CborArray (length (resourceList recRef) + 1),
        CborDouble (DNat (timestampFactor recRef))]
     @ map (\<lambda>r. CborDouble (DNat (factor r))) (resourceList recRef)
     @ [CborText ''s'',
        CborArray ((length (resourceList recRef) + 1) * length (timestampList recRef))]
     @ sample_rows recRef (timestampList recRef) None"

text \<open>
  Resources as \<open>CreateResourceData\<close> makes them: a type other than \<open>DATA_TYPE_NONE\<close>,
  factor 0 for strings and booleans and 1 otherwise.
\<close>

definition resource_wf :: "ResourceData_t \<Rightarrow> bool" where
  "resource_wf r =
     (type r \<noteq> DATA_TYPE_NONE
      \<and> factor r = (if type r = DATA_TYPE_STRING \<or> type r = DATA_TYPE_BOOL then 0 else 1))"

definition record_wf :: "RecordData_t \<Rightarrow> bool" where
  "record_wf recRef = list_all resource_wf (resourceList recRef)"

text \<open>A record whose flag \<open>isEncoded\<close> is set holds the encoding of its present content,
  and that encoding fits into the buffer.\<close>

definition cache_valid :: "RecordData_t \<Rightarrow> bool" where
  "cache_valid recRef =
     (isEncoded recRef \<longrightarrow>
        buffer recRef = encode_items recRef
        \<and> cbor_buffer_size (encode_items recRef) \<le> MAX_CBOR_BUFFER_NUMBYTES)"

text \<open>Writing items one after the other through one encoder, and the result that
  reports whether all of them fitted.\<close>

fun cbor_write_all :: "CborEncoder \<Rightarrow> cbor_item list \<Rightarrow> CborEncoder" where
  "cbor_write_all e [] = e"
| "cbor_write_all e (it # its) = cbor_write_all (snd (append_to_buffer e it)) its"

definition write_result :: "cbor_item list \<Rightarrow> CborEncoder \<Rightarrow> le_result_t \<times> CborEncoder" where
  "write_result its e =
     (if out_of_memory (cbor_write_all e its) then LE_NO_MEMORY else LE_OK, cbor_write_all e its)"

definition never_faults :: "le_result_t \<times> CborEncoder \<Rightarrow> bool" where
  "never_faults r = (fst r = LE_OK \<or> fst r = LE_NO_MEMORY)"

subsection \<open>Example records\<close>

text \<open>
  The record after \<open>timeSeries_AddInt\<close> of 1 for \<open>x\<close> at timestamp 10 on a new record.
\<close>

definition single_sample_record :: RecordData_t where
  "single_sample_record =
     \<lparr>timestampList = [10],
      resourceList = [\<lparr>name = ''x'', type = DATA_TYPE_INT, data = [(10, IntValue 1)], factor = 1\<rparr>],
      buffer =
        [CborMap 3, CborText ''h'', CborArray 1, CborText ''x'',
         CborText ''f'', CborArray 2, CborDouble (DNat 1), CborDouble (DNat 1),
         CborText ''s'', CborArray 2, CborUInt 10, CborInt 1],
      timestampFactor = 1, isEncoded = True\<rparr>"

text \<open>
  The record of the specification's example of a missing value: \<open>x\<close> written at 10 and
  20 with 1 and 2, \<open>y\<close> written at 20 only, with 9.
\<close>

definition example_record :: RecordData_t where
  "example_record =
     \<lparr>timestampList = [10, 20],
      resourceList =
        [\<lparr>name = ''x'', type = DATA_TYPE_INT, data = [(10, IntValue 1), (20, IntValue 2)],
          factor = 1\<rparr>,
         \<lparr>name = ''y'', type = DATA_TYPE_INT, data = [(20, IntValue 9)], factor = 1\<rparr>],
      buffer =
        [CborMap 3, CborText ''h'', CborArray 2, CborText ''x'', CborText ''y'',
         CborText ''f'', CborArray 3, CborDouble (DNat 1), CborDouble (DNat 1),
         CborDouble (DNat 1),
         CborText ''s'', CborArray 6,
         CborUInt 10, CborInt 1, CborInt 0, CborUInt 10, CborInt 1, CborInt 9],
      timestampFactor = 1, isEncoded = True\<rparr>"

text \<open>
  The record after \<open>timeSeries_AddInt\<close> of 1 for \<open>x\<close> at timestamp 0 on a new record.
\<close>

definition zero_timestamp_record :: RecordData_t where
  "zero_timestamp_record =
     \<lparr>timestampList = [0],
      resourceList = [\<lparr>name = ''x'', type = DATA_TYPE_INT, data = [(0, IntValue 1)], factor = 1\<rparr>],
      buffer =
        [CborMap 3, CborText ''h'', CborArray 1, CborText ''x'',
         CborText ''f'', CborArray 2, CborDouble (DNat 1), CborDouble (DNat 1),
         CborText ''s'', CborArray 2, CborUInt 0, CborInt 1],
      timestampFactor = 1, isEncoded = True\<rparr>"

text \<open>
  A record close to the capacity of the buffer: five string resources with paths of about
  500 characters and values of 254 characters, and a resource \<open>y\<close> with an empty
  string, all at timestamp 1.
\<close>

definition long_value :: string where
  "long_value = replicate 254 CHR ''a''"

definition long_path :: "nat \<Rightarrow> string" where
  "long_path n = replicate n CHR ''p''"

definition capacity_calls :: "(string \<times> sample_value \<times> u64) list" where
  "capacity_calls =
     [(long_path 497, StringSample long_value, 1),
      (long_path 498, StringSample long_value, 1),
      (long_path 499, StringSample long_value, 1),
      (long_path 500, StringSample long_value, 1),
      (long_path 501, StringSample long_value, 1),
      (''y'', StringSample [], 1)]"


section \<open>Evaluation\<close>

lemmas cbor_defs =
  RETURN_IF_CBOR_ERROR_def cbor_encoder_create_map_def cbor_encoder_create_array_def
  cbor_encode_text_string_def cbor_encode_uint_def cbor_encode_int_def cbor_encode_double_def
  cbor_encode_boolean_def append_to_buffer_def cbor_encoder_init_def cbor_buffer_size_def
  cbor_header_size_def MAX_CBOR_BUFFER_NUMBYTES_def NUM_TIME_SERIES_MAPS_def

lemmas encode_defs =
  Encode_def Encode_stream_def GetResourceCount_def GetTimestampCount_def
  EncodeResourceNameToCborArray_def EncodeFactorToCborArray_def EncodeResourceDataToCborArray_def
  EncodeResourceDefaultValue_def EncodeResourceDeltaValue_def uint_times_factor_def
  int_times_factor_def double_times_factor_def round_double_def intValue_def floatValue_def
  boolValue_def strValuePtr_def

lemmas table_defs =
  HashmapEqualsDouble_def double_is_nan_def double_is_zero_def le_hashmap_ContainsKey_def
  le_hashmap_Size_def

lemmas add_defs =
  add_sample_def timeSeries_AddInt_def timeSeries_AddFloat_def timeSeries_AddBool_def
  timeSeries_AddString_def timeSeries_Add_def timeSeries_Create_def GetResourceData_def
  AddTimestamp_def GetTimestamp_def CreateResourceData_def le_utf8_Copy_def
  le_utf8_NumBytesInChar_def AddIntResourceData_def AddFloatResourceData_def
  AddBoolResourceData_def AddStringResourceData_def AddResourceData_def

lemmas delete_defs =
  DeleteData_def DeleteResourceData_def DeleteTimestamp_def GetResourceDataTimestampCount_def

lemmas eval_defs = cbor_defs encode_defs table_defs add_defs delete_defs

section \<open>Copying strings\<close>

lemma le_utf8_Copy_loop_ascii:
  "\<forall>c\<in>set s. (of_char c :: nat) < 128 \<Longrightarrow> length d < n \<Longrightarrow>
   le_utf8_Copy_loop d s n =
     (if length d + length s < n then (d @ s, LE_OK)
      else (d @ take (n - 1 - length d) s, LE_OVERFLOW))"
proof (induction s arbitrary: d)
  case Nil
  then show ?case by simp
next
  case (Cons c cs)
  have c1: "le_utf8_NumBytesInChar c = 1"
    using Cons.prems(1) by (simp add: le_utf8_NumBytesInChar_def)
  show ?case
  proof (cases "Suc (length d) \<ge> n")
    case True
    then show ?thesis using Cons.prems(2) c1 by simp
  next
    case False
    then have lt: "length (d @ [c]) < n" by simp
    have "le_utf8_Copy_loop d (c # cs) n = le_utf8_Copy_loop (d @ [c]) cs n"
      using False c1 by simp
    also have "\<dots> = (if length (d @ [c]) + length cs < n then ((d @ [c]) @ cs, LE_OK)
                     else ((d @ [c]) @ take (n - 1 - length (d @ [c])) cs, LE_OVERFLOW))"
      using Cons.IH[OF _ lt] Cons.prems(1) by simp
    also have "\<dots> = (if length d + length (c # cs) < n then (d @ c # cs, LE_OK)
                     else (d @ take (n - 1 - length d) (c # cs), LE_OVERFLOW))"
    proof -
      have "n - 1 - length d = Suc (n - 1 - length (d @ [c]))" using False by simp
      then show ?thesis by simp
    qed
    finally show ?thesis .
  qed
qed

section \<open>The order of the timestamp list\<close>

text \<open>
  C1.  The claim: after every call that adds a sample the timestamp list is strictly
  ascending, and a timestamp smaller than every entry is placed before all of them.
  \<open>AddTimestamp\<close> never compares the new timestamp with the first entry: adding a sample
  at 10 and then one at 5 leaves the list \<open>[10, 5]\<close>, which is not ascending; both calls
  return \<open>LE_OK\<close>.
\<close>

theorem timestamps_not_ascending_after_smaller_timestamp:
  "map_option (\<lambda>(results, recRef). (results, timestampList recRef, sorted_wrt (<) (timestampList recRef)))
     (add_samples 511 255 timeSeries_Create
        [(''x'', IntSample 1, 10), (''x'', IntSample 1, 5)])
   = Some ([LE_OK, LE_OK], [10, 5], False)"
  by (simp add: eval_defs)

section \<open>The encoded timestamps\<close>

text \<open>
  C4.  The claim: the first row carries its timestamp times the factor, and every later
  row the difference to the row before times the factor, for all 64 bit timestamps and
  differences.  The difference is stored in a 32 bit \<open>uint\<close> before it is multiplied:
  with samples at 10 and at \<open>2^32 + 10\<close> the second row carries 0, not \<open>2^32\<close>.
\<close>

theorem timestamp_delta_truncated_to_32_bits:
  "map_option (\<lambda>(results, recRef). (results, timestampList recRef, drop 10 (buffer recRef)))
     (add_samples 511 255 timeSeries_Create
        [(''x'', IntSample 5, 10), (''x'', IntSample 8, 4294967306)])
   = Some ([LE_OK, LE_OK], [10, 4294967306], [CborUInt 10, CborInt 5, CborUInt 0, CborInt 3])"
  by (simp add: eval_defs)

section \<open>Timestamps without a value\<close>

text \<open>
  C9.  The claim: after every call, also one that returns an error, every timestamp of the
  list has a value in at least one resource.  \<open>timeSeries_AddInt\<close> adds the timestamp
  before it creates the resource, and leaves with \<open>LE_OVERFLOW\<close> when the path does not
  fit into the name of a resource: with a path of 511 characters on a new record (and 511
  for \<open>LE_AVDATA_PATH_NAME_LEN\<close>) the record is left with timestamp 10 and no resource.
\<close>

theorem timestamp_left_behind_when_path_too_long:
  "map_option (\<lambda>(result, recRef).
       (result, timestampList recRef, resourceList recRef, GetResourceDataTimestampCount recRef 10))
     (timeSeries_AddInt 511 timeSeries_Create (replicate 511 CHR ''a'') 1 10)
   = Some (LE_OVERFLOW, [10], [], 0)"
  by (simp add: timeSeries_AddInt_def timeSeries_Add_def timeSeries_Create_def
      GetResourceData_def AddTimestamp_def GetTimestamp_def CreateResourceData_def
      le_utf8_Copy_def le_utf8_Copy_loop_ascii GetResourceDataTimestampCount_def)

section \<open>An encoding that is not renewed\<close>

text \<open>
  C3.  The claim: for every record the encoded output has the names of all resources in
  \<open>h\<close> and one factor more in \<open>f\<close>.  \<open>timeSeries_AddInt\<close> leaves with
  \<open>LE_NOT_FOUND\<close> when it does not find the resource it has just created, which happens
  when the name that \<open>le_utf8_Copy\<close> stored is not the path: a path that starts with
  the byte \<open>0x80\<close> gives an empty name.  The timestamp and the resource stay in the
  record and \<open>isEncoded\<close> stays set, so \<open>Encode\<close> returns \<open>LE_OK\<close> with the
  encoding made before the call: the record has two resources and two timestamps, the
  output one name, two factors and one row.
\<close>

theorem encoding_not_renewed_after_resource_was_added:
  "map_option (\<lambda>(results, recRef).
        (results, map name (resourceList recRef), timestampList recRef, isEncoded recRef,
         fst (Encode recRef), buffer (snd (Encode recRef))))
     (add_samples 511 255 timeSeries_Create
        [(''x'', IntSample 1, 10), ([CHR 0x80], IntSample 2, 20)])
   = Some ([LE_OK, LE_NOT_FOUND], [''x'', []], [10, 20], True, LE_OK,
           [CborMap 3, CborText ''h'', CborArray 1, CborText ''x'',
            CborText ''f'', CborArray 2, CborDouble (DNat 1), CborDouble (DNat 1),
            CborText ''s'', CborArray 2, CborUInt 10, CborInt 1])"
  by (simp add: eval_defs)

section \<open>The difference of two int values\<close>

text \<open>
  C5.  The claim: an int item after the first row is the value minus the value of the row
  before, times the factor.  \<open>EncodeResourceDeltaValue\<close> computes the difference in a
  32 bit \<open>int\<close>: with 2147483647 at timestamp 10 and -2147483648 at timestamp 20 the
  second row carries 1, not -4294967295.
\<close>

theorem int_delta_wraps_at_32_bits:
  "map_option (\<lambda>(results, recRef). (results, timestampList recRef, drop 10 (buffer recRef)))
     (add_samples 511 255 timeSeries_Create
        [(''x'', IntSample 2147483647, 10), (''x'', IntSample (- 2147483648), 20)])
   = Some ([LE_OK, LE_OK], [10, 20],
           [CborUInt 10, CborInt 2147483647, CborUInt 10, CborInt 1])"
  by (simp add: eval_defs)

section \<open>What encoding leaves unchanged\<close>

lemma Encode_lists [simp]:
  "resourceList (snd (Encode recRef)) = resourceList recRef"
  "timestampList (snd (Encode recRef)) = timestampList recRef"
  "timestampFactor (snd (Encode recRef)) = timestampFactor recRef"
  by (simp_all add: Encode_def split: prod.splits)

lemma Encode_OK_isEncoded: "Encode recRef = (LE_OK, recRef1) \<Longrightarrow> isEncoded recRef1"
  by (auto simp: Encode_def split: prod.splits if_splits)

lemma Encode_cached: "isEncoded recRef \<Longrightarrow> Encode recRef = (LE_OK, recRef)"
  by (simp add: Encode_def)

lemma cbor_item_size_pos: "0 < cbor_item_size it"
  by (cases it) (simp_all add: cbor_header_size_def)

lemma cbor_buffer_size_0: "cbor_buffer_size its = 0 \<longleftrightarrow> its = []"
proof (cases its)
  case Nil
  then show ?thesis by (simp add: cbor_buffer_size_def)
next
  case (Cons a as)
  then show ?thesis using cbor_item_size_pos[of a] by (simp add: cbor_buffer_size_def)
qed

lemma GetEncodedData_encoded: "isEncoded recRef \<Longrightarrow> GetEncodedData recRef = buffer recRef"
  by (auto simp: GetEncodedData_def GetEncodedDataSize_def cbor_buffer_size_0)

section \<open>Tables, timestamps and deletion\<close>

text \<open>
  A key with the bits of a NaN is equal to no key, itself included: a value stored under
  it is never found.  A sample added at such a timestamp is stored, the call returns
  \<open>LE_OK\<close>, and the row of the timestamp carries the default of the type.
\<close>

lemma le_hashmap_Get_nan: "double_is_nan k \<Longrightarrow> le_hashmap_Get m k = None"
  by (induction m) (auto simp: HashmapEqualsDouble_def)

lemma le_hashmap_Put_nan: "double_is_nan k \<Longrightarrow> le_hashmap_Put m k v = m @ [(k, v)]"
  by (induction m) (auto simp: HashmapEqualsDouble_def)

lemma floorlog_nan_timestamp: "floorlog 2 (9221120237041090560::nat) = 63"
proof (rule antisym)
  show "floorlog 2 (9221120237041090560::nat) \<le> 63"
    by (rule floorlog_leI) simp_all
  show "63 \<le> floorlog 2 (9221120237041090560::nat)"
    by (rule floorlog_geI) simp_all
qed

lemma value_at_nan_timestamp_not_found:
  "map_option (\<lambda>(results, recRef).
        (results, map data (resourceList recRef), timestampList recRef, drop 10 (buffer recRef)))
     (add_samples 511 255 timeSeries_Create
        [(''x'', IntSample 7, 0x7FF8000000000000)])
   = Some ([LE_OK], [[(0x7FF8000000000000, IntValue 7)]], [0x7FF8000000000000],
           [CborUInt 0x7FF8000000000000, CborInt 0])"
  by (simp add: eval_defs floorlog_nan_timestamp)





lemma GetTimestamp_loop_Some: "GetTimestamp_loop l ts = Some t \<Longrightarrow> t = ts \<and> ts \<in> set l"
  by (induction l) (auto split: if_splits)

lemma GetTimestamp_loop_None: "GetTimestamp_loop l ts = None \<longleftrightarrow> ts \<notin> set l"
  by (induction l) auto

lemma GetTimestamp_loop_mem: "ts \<in> set l \<Longrightarrow> GetTimestamp_loop l ts = Some ts"
  by (induction l) auto

lemma set_AddTimestamp_loop: "set (AddTimestamp_loop l ts) = insert ts (set l)"
  by (induction l ts rule: AddTimestamp_loop.induct) auto

lemma set_AddTimestamp: "set (timestampList (AddTimestamp recRef ts)) = insert ts (set (timestampList recRef))"
  by (auto simp: AddTimestamp_def GetTimestamp_def set_AddTimestamp_loop
      dest: GetTimestamp_loop_Some split: option.splits)

lemma GetTimestamp_AddTimestamp: "GetTimestamp (AddTimestamp recRef ts) ts = Some ts"
  using set_AddTimestamp[of recRef ts] by (simp add: GetTimestamp_def GetTimestamp_loop_mem)

lemma AddTimestamp_other [simp]:
  "resourceList (AddTimestamp recRef ts) = resourceList recRef"
  "timestampFactor (AddTimestamp recRef ts) = timestampFactor recRef"
  by (simp_all add: AddTimestamp_def split: option.splits)

lemma DeleteTimestamp_loop_mem: "ts \<in> set l \<Longrightarrow> DeleteTimestamp_loop l ts = Some (remove1 ts l)"
  by (induction l) auto

lemma DeleteTimestamp_mem:
  "ts \<in> set (timestampList recRef) \<Longrightarrow>
   DeleteTimestamp recRef ts = Some (recRef\<lparr>timestampList := remove1 ts (timestampList recRef)\<rparr>)"
  by (auto simp: DeleteTimestamp_def DeleteTimestamp_loop_mem)



lemma DeleteData_eq:
  "DeleteData recRef path ts =
     (if ts \<in> set (timestampList recRef)
      then (let recRef1 = DeleteResourceData recRef path ts
            in if GetResourceDataTimestampCount recRef1 ts = 0
               then Some (recRef1\<lparr>timestampList := remove1 ts (timestampList recRef)\<rparr>)
               else Some recRef1)
      else Some recRef)"
proof (cases "ts \<in> set (timestampList recRef)")
  case True
  then have g: "GetTimestamp recRef ts = Some ts" by (simp add: GetTimestamp_def GetTimestamp_loop_mem)
  have "ts \<in> set (timestampList (DeleteResourceData recRef path ts))"
    using True by (simp add: DeleteResourceData_def)
  from DeleteTimestamp_mem[OF this] show ?thesis using True g
    by (simp add: DeleteData_def Let_def DeleteResourceData_def)
next
  case False
  then show ?thesis by (simp add: DeleteData_def GetTimestamp_def GetTimestamp_loop_None[THEN iffD2])
qed


lemma GetResourceData_loop_eq:
  "GetResourceData_loop rs path ty i =
     (case find (\<lambda>r. name r = path) rs of
        None \<Rightarrow> Inl LE_NOT_FOUND
      | Some r \<Rightarrow> if type r \<noteq> ty then Inl LE_FAULT
                  else Inr (i + length (takeWhile (\<lambda>r. name r \<noteq> path) rs)))"
  by (induction rs arbitrary: i) (auto split: option.splits)

lemma resource_at_nth: "resource_at rs i = (if i < length rs then Some (rs ! i) else None)"
  by (induction rs i rule: resource_at.induct) auto


section \<open>The encoder never reports a fault\<close>

lemmas cbor_calls =
  cbor_encoder_create_map_def cbor_encoder_create_array_def cbor_encode_text_string_def
  cbor_encode_uint_def cbor_encode_int_def cbor_encode_double_def cbor_encode_boolean_def

lemma nf_return_if:
  "(\<And>e'. never_faults (k e')) \<Longrightarrow> never_faults (RETURN_IF_CBOR_ERROR (append_to_buffer e it) k)"
  by (simp add: RETURN_IF_CBOR_ERROR_def append_to_buffer_def never_faults_def)

lemma nf_check:
  "never_faults p \<Longrightarrow> (\<And>e'. never_faults (k e')) \<Longrightarrow>
   never_faults (case p of (result, e) \<Rightarrow> if result \<noteq> LE_OK then (result, e) else k e)"
  by (cases p) (auto simp: never_faults_def)

lemma nf_ok: "never_faults (LE_OK, e)"
  by (simp add: never_faults_def)

lemma nf_names: "never_faults (EncodeResourceNameToCborArray_loop rs e)"
  by (induction rs arbitrary: e) (simp_all add: cbor_calls nf_return_if nf_ok)

lemma nf_factors: "never_faults (EncodeFactorToCborArray_loop rs e)"
  by (induction rs arbitrary: e) (simp_all add: cbor_calls nf_return_if nf_ok)

lemma nf_default: "never_faults (EncodeResourceDefaultValue r e)"
  by (cases "type r") (simp_all add: EncodeResourceDefaultValue_def cbor_calls nf_return_if nf_ok)

lemma nf_delta: "never_faults (EncodeResourceDeltaValue r v prev e)"
  by (cases "type r")
     (simp_all add: EncodeResourceDeltaValue_def cbor_calls nf_return_if nf_ok Let_def)

lemma nf_resources:
  "never_faults (res, e) \<Longrightarrow> never_faults (EncodeResourceData_resources rs t prev res e)"
proof (induction rs arbitrary: res e)
  case Nil
  then show ?case by simp
next
  case (Cons r rs)
  let ?c = "case le_hashmap_Get (data r) t of
              None \<Rightarrow> EncodeResourceDefaultValue r e
            | Some valuePtr \<Rightarrow> EncodeResourceDeltaValue r valuePtr prev e"
  have "never_faults ?c"
    by (simp add: nf_default nf_delta split: option.splits)
  then have "never_faults (EncodeResourceData_resources rs t prev (fst ?c) (snd ?c))"
    by (intro Cons.IH) simp
  then show ?case by (simp add: case_prod_beta)
qed

lemma nf_timestamps:
  "never_faults (res, e) \<Longrightarrow> never_faults (EncodeResourceData_timestamps recRef tss prev res e)"
proof (induction tss arbitrary: prev res e)
  case Nil
  then show ?case by simp
next
  case (Cons t tss)
  have res: "never_faults (res, e1)" for e1
    using Cons.prems by (simp add: never_faults_def)
  have "never_faults (case EncodeResourceData_resources (resourceList recRef) t prev res e1 of
           (result', e') \<Rightarrow> EncodeResourceData_timestamps recRef tss (Some t) result' e')" for e1
    using Cons.IH[of "fst (EncodeResourceData_resources (resourceList recRef) t prev res e1)"
        "snd (EncodeResourceData_resources (resourceList recRef) t prev res e1)" "Some t"]
      nf_resources[OF res[of e1], of "resourceList recRef" t prev]
    by (simp add: case_prod_beta)
  then show ?case
    by (simp add: Let_def cbor_calls nf_return_if)
qed

lemma nf_samples:
  "never_faults (case append_to_buffer e it of
       (err, e) \<Rightarrow>
         case EncodeResourceData_timestamps recRef tss None LE_OK e of
           (result, e) \<Rightarrow>
             if result \<noteq> LE_OK then (result, e)
             else RETURN_IF_CBOR_ERROR (err, e) (\<lambda>e. (result, e)))"
proof -
  obtain err e1 where a: "append_to_buffer e it = (err, e1)" by (cases "append_to_buffer e it")
  then have err: "err = CborNoError \<or> err = CborErrorOutOfMemory"
    by (auto simp: append_to_buffer_def split: if_splits)
  have "never_faults (EncodeResourceData_timestamps recRef tss None LE_OK e1)"
    by (rule nf_timestamps) (rule nf_ok)
  then show ?thesis using a err
    by (auto simp: never_faults_def RETURN_IF_CBOR_ERROR_def split: prod.splits)
qed

lemma nf_Encode_stream: "never_faults (Encode_stream recRef)"
  unfolding Encode_stream_def cbor_calls EncodeResourceNameToCborArray_def
    EncodeFactorToCborArray_def EncodeResourceDataToCborArray_def
  by (intro nf_return_if nf_check nf_names nf_factors nf_samples)

lemma Encode_result: "Encode recRef = (res, recRef') \<Longrightarrow> res = LE_OK \<or> res = LE_NO_MEMORY"
  using nf_Encode_stream[of recRef]
  by (auto simp: Encode_def never_faults_def split: if_splits prod.splits)


section \<open>Looking up and adding resources\<close>

lemma GetResourceData_FAULT_iff:
  "GetResourceData recRef path ty = Inl LE_FAULT \<longleftrightarrow>
     (\<exists>r. find (\<lambda>r. name r = path) (resourceList recRef) = Some r \<and> type r \<noteq> ty)"
  by (auto simp: GetResourceData_def GetResourceData_loop_eq split: option.splits)

lemma GetResourceData_Inl:
  "GetResourceData recRef path ty = Inl res \<Longrightarrow> res = LE_FAULT \<or> res = LE_NOT_FOUND"
  by (auto simp: GetResourceData_def GetResourceData_loop_eq split: option.splits if_splits)

lemma GetResourceData_NOT_FOUND:
  "GetResourceData recRef path ty = Inl LE_NOT_FOUND \<longleftrightarrow>
     find (\<lambda>r. name r = path) (resourceList recRef) = None"
  by (auto simp: GetResourceData_def GetResourceData_loop_eq split: option.splits if_splits)

lemma find_takeWhile_index:
  "find P xs = Some x \<Longrightarrow>
     length (takeWhile (\<lambda>y. \<not> P y) xs) < length xs \<and> xs ! length (takeWhile (\<lambda>y. \<not> P y) xs) = x"
  by (induction xs) (auto split: if_splits)

lemma find_append_eq:
  "find P (xs @ ys) = (case find P xs of None \<Rightarrow> find P ys | Some x \<Rightarrow> Some x)"
  by (induction xs) auto

lemma Encode_keeps:
  assumes "Encode recRef = (res, recRef')"
  shows "resourceList recRef' = resourceList recRef"
    and "timestampList recRef' = timestampList recRef"
    and "timestampFactor recRef' = timestampFactor recRef"
  using assms Encode_lists[of recRef] by simp_all

lemma GetResourceData_Inr:
  "GetResourceData recRef path ty = Inr i \<Longrightarrow>
     i < length (resourceList recRef) \<and> name (resourceList recRef ! i) = path
     \<and> type (resourceList recRef ! i) = ty
     \<and> find (\<lambda>r. name r = path) (resourceList recRef) = Some (resourceList recRef ! i)"
proof -
  assume a: "GetResourceData recRef path ty = Inr i"
  let ?rs = "resourceList recRef"
  from a obtain r where f: "find (\<lambda>r. name r = path) ?rs = Some r" and t: "type r = ty"
    and i: "i = length (takeWhile (\<lambda>r. name r \<noteq> path) ?rs)"
    by (auto simp: GetResourceData_def GetResourceData_loop_eq split: option.splits if_splits)
  from find_takeWhile_index[OF f] have lt: "i < length ?rs" and "r = ?rs ! i"
    unfolding i by simp_all
  then show ?thesis using f t
    by (auto simp: find_Some_iff)
qed

lemma CreateResourceData_result:
  "CreateResourceData P recRef path ty = (res, recRef') \<Longrightarrow>
     (res = LE_OVERFLOW \<and> recRef' = recRef) \<or>
     (res = LE_OK \<and> (\<exists>nm. recRef' = recRef\<lparr>resourceList := resourceList recRef @
        [\<lparr>name = nm, type = ty, data = [],
          factor = (if ty = DATA_TYPE_STRING \<or> ty = DATA_TYPE_BOOL then 0 else 1)\<rparr>]\<rparr>))"
  by (auto simp: CreateResourceData_def split: prod.splits if_splits)

lemma DeleteData_Some: "\<exists>r. DeleteData recRef path ts = Some r"
  by (simp add: DeleteData_eq Let_def)

lemma AddResourceData_result:
  assumes "ts \<in> set (timestampList recRef)"
    and "AddResourceData recRef i d ts = Some (res, recRef')"
  shows "res = LE_OK \<or> res = LE_NO_MEMORY"
proof -
  have g: "GetTimestamp recRef ts = Some ts"
    using assms(1) by (simp add: GetTimestamp_def GetTimestamp_loop_mem)
  show ?thesis using assms(2) g
    by (auto simp: AddResourceData_def Let_def split: option.splits prod.splits if_splits
        dest: Encode_result)
qed

lemma AddResourceData_OK:
  assumes "ts \<in> set (timestampList recRef)"
    and "AddResourceData recRef i d ts = Some (LE_OK, recRef')"
  shows "i < length (resourceList recRef)
       \<and> resourceList recRef' = (resourceList recRef)
            [i := (resourceList recRef ! i)\<lparr>data := le_hashmap_Put (data (resourceList recRef ! i)) ts d\<rparr>]
       \<and> timestampList recRef' = timestampList recRef
       \<and> timestampFactor recRef' = timestampFactor recRef \<and> isEncoded recRef'"
proof -
  have g: "GetTimestamp recRef ts = Some ts"
    using assms(1) by (simp add: GetTimestamp_def GetTimestamp_loop_mem)
  obtain r where r: "resource_at (resourceList recRef) i = Some r"
    using assms(2) g by (auto simp: AddResourceData_def split: option.splits)
  then have i: "i < length (resourceList recRef)" "r = resourceList recRef ! i"
    by (auto simp: resource_at_nth split: if_splits)
  let ?rec1 = "recRef\<lparr>resourceList := (resourceList recRef)
                  [i := r\<lparr>data := le_hashmap_Put (data r) ts d\<rparr>], isEncoded := False\<rparr>"
  have e: "Encode ?rec1 = (LE_OK, recRef')"
    using assms(2) g r
    by (auto simp: AddResourceData_def Let_def split: prod.splits if_splits)
  show ?thesis
    using Encode_keeps[OF e] Encode_OK_isEncoded[OF e] i by simp
qed

lemma timeSeries_Add_FAULT_iff:
  assumes add: "\<And>rec i res rec'. ts \<in> set (timestampList rec) \<Longrightarrow> add rec i = Some (res, rec')
                 \<Longrightarrow> res \<noteq> LE_FAULT"
  shows "timeSeries_Add P ty add recRef path ts = Some (LE_FAULT, recRef') \<longleftrightarrow>
     (\<exists>r. find (\<lambda>r. name r = path) (resourceList recRef) = Some r \<and> type r \<noteq> ty)
     \<and> recRef' = recRef"
proof (cases "GetResourceData recRef path ty")
  case (Inl res)
  show ?thesis
  proof (cases "res = LE_FAULT")
    case True
    then show ?thesis using Inl GetResourceData_FAULT_iff[of recRef path ty]
      by (auto simp: timeSeries_Add_def)
  next
    case False
    then have nf: "res = LE_NOT_FOUND" using Inl GetResourceData_Inl by blast
    have no: "\<not> (\<exists>r. find (\<lambda>r. name r = path) (resourceList recRef) = Some r \<and> type r \<noteq> ty)"
      using Inl nf GetResourceData_NOT_FOUND[of recRef path ty] by simp
    let ?rec1 = "AddTimestamp recRef ts"
    have ts1: "ts \<in> set (timestampList ?rec1)" by (simp add: set_AddTimestamp)
    obtain cres rec2 where c: "CreateResourceData P ?rec1 path ty = (cres, rec2)"
      by (cases "CreateResourceData P ?rec1 path ty")
    have "timeSeries_Add P ty add recRef path ts \<noteq> Some (LE_FAULT, recRef')"
    proof (cases "cres = LE_OK")
      case False
      then show ?thesis using Inl nf c CreateResourceData_result[OF c]
        by (auto simp: timeSeries_Add_def Let_def)
    next
      case True
      then obtain nm where rec2: "rec2 = ?rec1\<lparr>resourceList := resourceList ?rec1 @
        [\<lparr>name = nm, type = ty, data = [],
          factor = (if ty = DATA_TYPE_STRING \<or> ty = DATA_TYPE_BOOL then 0 else 1)\<rparr>]\<rparr>"
        using CreateResourceData_result[OF c] by auto
      have ts2: "ts \<in> set (timestampList rec2)" using ts1 rec2 by simp
      have g2: "GetResourceData rec2 path ty \<noteq> Inl LE_FAULT"
        using no unfolding GetResourceData_FAULT_iff rec2
        by (auto simp: find_append_eq split: option.splits if_splits)
      show ?thesis
      proof (cases "GetResourceData rec2 path ty")
        case (Inl res2)
        then show ?thesis using \<open>GetResourceData recRef path ty = Inl res\<close> nf c True g2
          by (auto simp: timeSeries_Add_def Let_def)
      next
        case (Inr i)
        then show ?thesis using \<open>GetResourceData recRef path ty = Inl res\<close> nf c True add[OF ts2, of i]
          by (auto simp: timeSeries_Add_def Let_def)
      qed
    qed
    then show ?thesis using no by simp
  qed
next
  case (Inr i)
  have no: "\<not> (\<exists>r. find (\<lambda>r. name r = path) (resourceList recRef) = Some r \<and> type r \<noteq> ty)"
    using GetResourceData_Inr[OF Inr] by auto
  have ts1: "ts \<in> set (timestampList (AddTimestamp recRef ts))" by (simp add: set_AddTimestamp)
  show ?thesis using Inr no add[OF ts1, of i]
    by (auto simp: timeSeries_Add_def)
qed



section \<open>The encoder writes the items of the specification\<close>

lemma out_of_memory_update: "out_of_memory e \<Longrightarrow> e\<lparr>out_of_memory := True\<rparr> = e"
  by (cases e) simp

lemma cbor_write_all_oom: "out_of_memory e \<Longrightarrow> cbor_write_all e its = e"
  by (induction its) (simp_all add: append_to_buffer_def out_of_memory_update)

lemma cbor_write_all_append:
  "cbor_write_all e (xs @ ys) = cbor_write_all (cbor_write_all e xs) ys"
  by (induction xs arbitrary: e) simp_all

lemma cbor_write_all_fits:
  "\<not> out_of_memory e \<Longrightarrow>
   cbor_buffer_size (written e) + cbor_buffer_size its \<le> MAX_CBOR_BUFFER_NUMBYTES \<Longrightarrow>
   cbor_write_all e its = e\<lparr>written := written e @ its\<rparr>"
proof (induction its arbitrary: e)
  case Nil
  then show ?case by simp
next
  case (Cons it its)
  have a: "append_to_buffer e it = (CborNoError, e\<lparr>written := written e @ [it]\<rparr>)"
    using Cons.prems by (simp add: append_to_buffer_def cbor_buffer_size_def)
  show ?case
    using Cons.IH[of "e\<lparr>written := written e @ [it]\<rparr>"] Cons.prems a
    by (simp add: cbor_buffer_size_def)
qed

lemma cbor_write_all_overflows:
  "MAX_CBOR_BUFFER_NUMBYTES < cbor_buffer_size (written e) + cbor_buffer_size its \<Longrightarrow>
   cbor_buffer_size (written e) \<le> MAX_CBOR_BUFFER_NUMBYTES \<Longrightarrow>
   out_of_memory (cbor_write_all e its)"
proof (induction its arbitrary: e)
  case Nil
  then show ?case by (simp add: cbor_buffer_size_def)
next
  case (Cons it its)
  show ?case
  proof (cases "out_of_memory e \<or> MAX_CBOR_BUFFER_NUMBYTES < cbor_buffer_size (written e) + cbor_item_size it")
    case True
    then have "out_of_memory (snd (append_to_buffer e it))" by (simp add: append_to_buffer_def)
    then show ?thesis by (simp add: cbor_write_all_oom)
  next
    case False
    then have a: "snd (append_to_buffer e it) = e\<lparr>written := written e @ [it]\<rparr>"
      by (simp add: append_to_buffer_def)
    show ?thesis
      using Cons.IH[of "e\<lparr>written := written e @ [it]\<rparr>"] Cons.prems False a
      by (simp add: cbor_buffer_size_def)
  qed
qed

lemma RETURN_IF_eq:
  "RETURN_IF_CBOR_ERROR (append_to_buffer e it) k =
     (if out_of_memory (snd (append_to_buffer e it)) then (LE_NO_MEMORY, snd (append_to_buffer e it))
      else k (snd (append_to_buffer e it)))"
  by (simp add: RETURN_IF_CBOR_ERROR_def append_to_buffer_def)

lemma names_eq:
  "EncodeResourceNameToCborArray_loop rs e =
     (if out_of_memory (cbor_write_all e (map (\<lambda>r. CborText (name r)) rs)) \<and> rs \<noteq> []
      then LE_NO_MEMORY else LE_OK,
      cbor_write_all e (map (\<lambda>r. CborText (name r)) rs))"
proof (induction rs arbitrary: e)
  case Nil
  then show ?case by simp
next
  case (Cons r rs)
  let ?e1 = "snd (append_to_buffer e (CborText (name r)))"
  show ?case
  proof (cases "out_of_memory ?e1")
    case True
    then show ?thesis
      using cbor_write_all_oom[OF True] by (simp add: cbor_calls RETURN_IF_eq)
  next
    case False
    then show ?thesis
      using Cons.IH[of ?e1]
      by (cases rs) (simp_all add: cbor_calls RETURN_IF_eq)
  qed
qed

lemma factors_eq:
  "EncodeFactorToCborArray_loop rs e =
     (if out_of_memory (cbor_write_all e (map (\<lambda>r. CborDouble (DNat (factor r))) rs)) \<and> rs \<noteq> []
      then LE_NO_MEMORY else LE_OK,
      cbor_write_all e (map (\<lambda>r. CborDouble (DNat (factor r))) rs))"
proof (induction rs arbitrary: e)
  case Nil
  then show ?case by simp
next
  case (Cons r rs)
  let ?e1 = "snd (append_to_buffer e (CborDouble (DNat (factor r))))"
  show ?case
  proof (cases "out_of_memory ?e1")
    case True
    then show ?thesis
      using cbor_write_all_oom[OF True] by (simp add: cbor_calls RETURN_IF_eq)
  next
    case False
    then show ?thesis
      using Cons.IH[of ?e1]
      by (cases rs) (simp_all add: cbor_calls RETURN_IF_eq)
  qed
qed

lemma cell_eq:
  assumes "resource_wf r"
  shows "(case le_hashmap_Get (data r) t of
            None \<Rightarrow> EncodeResourceDefaultValue r e
          | Some valuePtr \<Rightarrow> EncodeResourceDeltaValue r valuePtr prev e) =
         (if out_of_memory (snd (append_to_buffer e (cell_item r t prev)))
          then LE_NO_MEMORY else LE_OK,
          snd (append_to_buffer e (cell_item r t prev)))"
proof (cases "le_hashmap_Get (data r) t")
  case None
  then show ?thesis using assms
    by (cases "type r")
       (simp_all add: resource_wf_def cell_item_def default_item_def EncodeResourceDefaultValue_def
          cbor_calls RETURN_IF_CBOR_ERROR_def append_to_buffer_def)
next
  case (Some cur)
  then show ?thesis using assms
    by (cases "type r"; cases prev)
       (simp_all add: resource_wf_def cell_item_def value_item_def EncodeResourceDeltaValue_def
          previous_row_int_def previous_row_float_def double_times_factor_def
          cbor_calls RETURN_IF_CBOR_ERROR_def append_to_buffer_def Let_def)
qed

lemma resources_eq:
  assumes "list_all resource_wf rs"
  shows "EncodeResourceData_resources rs t prev res e =
     (if rs = [] then res
      else if out_of_memory (cbor_write_all e (map (\<lambda>r. cell_item r t prev) rs))
           then LE_NO_MEMORY else LE_OK,
      cbor_write_all e (map (\<lambda>r. cell_item r t prev) rs))"
  using assms
proof (induction rs arbitrary: res e)
  case Nil
  then show ?case by simp
next
  case (Cons r rs)
  have wf: "resource_wf r" "list_all resource_wf rs" using Cons.prems by simp_all
  let ?e1 = "snd (append_to_buffer e (cell_item r t prev))"
  let ?res1 = "if out_of_memory ?e1 then LE_NO_MEMORY else LE_OK"
  have step: "EncodeResourceData_resources (r # rs) t prev res e =
              EncodeResourceData_resources rs t prev ?res1 ?e1"
    using cell_eq[OF wf(1), where t=t and e=e and prev=prev] by simp
  show ?case
  proof (cases rs)
    case Nil
    then show ?thesis using step by simp
  next
    case (Cons a list)
    then show ?thesis using step Cons.IH[OF wf(2), of ?res1 ?e1] by simp
  qed
qed

lemma timestamps_eq:
  assumes "list_all resource_wf (resourceList recRef)"
    and "res = LE_OK \<or> out_of_memory e"
  shows "EncodeResourceData_timestamps recRef tss prev res e =
     (if tss = [] then res
      else if out_of_memory (cbor_write_all e (sample_rows recRef tss prev))
           then LE_NO_MEMORY else LE_OK,
      cbor_write_all e (sample_rows recRef tss prev))"
  using assms(2)
proof (induction tss arbitrary: prev res e)
  case Nil
  then show ?case by simp
next
  case (Cons t tss)
  let ?rs = "resourceList recRef"
  let ?e1 = "snd (append_to_buffer e (timestamp_item (timestampFactor recRef) t prev))"
  let ?cells = "map (\<lambda>r. cell_item r t prev) ?rs"
  let ?e2 = "cbor_write_all ?e1 ?cells"
  have rows: "cbor_write_all e (sample_rows recRef (t # tss) prev) =
              cbor_write_all ?e2 (sample_rows recRef tss (Some t))"
    by (simp add: cbor_write_all_append)
  have head: "EncodeResourceData_timestamps recRef (t # tss) prev res e =
     (if out_of_memory ?e1 then (LE_NO_MEMORY, ?e1)
      else case EncodeResourceData_resources ?rs t prev res ?e1 of
             (result', e') \<Rightarrow> EncodeResourceData_timestamps recRef tss (Some t) result' e')"
    by (simp add: Let_def timestamp_item_def cbor_calls RETURN_IF_eq split: option.splits)
  show ?case
  proof (cases "out_of_memory ?e1")
    case True
    have "?e2 = ?e1" using True by (rule cbor_write_all_oom)
    then have "cbor_write_all e (sample_rows recRef (t # tss) prev) = ?e1"
      using rows True by (simp add: cbor_write_all_oom)
    then show ?thesis using head True by simp
  next
    case False
    then have "\<not> out_of_memory e" by (auto simp: append_to_buffer_def split: if_splits)
    then have res: "res = LE_OK" using Cons.prems by simp
    let ?res1 = "if ?rs = [] then res else if out_of_memory ?e2 then LE_NO_MEMORY else LE_OK"
    have r1: "EncodeResourceData_resources ?rs t prev res ?e1 = (?res1, ?e2)"
      using resources_eq[OF assms(1)] by simp
    have pre: "?res1 = LE_OK \<or> out_of_memory ?e2" using res by simp
    have e2: "?rs = [] \<Longrightarrow> \<not> out_of_memory ?e2" using False by simp
    show ?thesis
      using head False r1 Cons.IH[OF pre, of "Some t"] rows res e2
      by (cases tss) (simp_all del: sample_rows.simps)
  qed
qed


lemma write_result_oom: "out_of_memory e \<Longrightarrow> write_result its e = (LE_NO_MEMORY, e)"
  by (simp add: write_result_def cbor_write_all_oom)

lemma stage_append:
  assumes "\<not> out_of_memory (snd (append_to_buffer e it)) \<Longrightarrow>
           k (snd (append_to_buffer e it)) = write_result rest (snd (append_to_buffer e it))"
  shows "RETURN_IF_CBOR_ERROR (append_to_buffer e it) k = write_result (it # rest) e"
proof (cases "out_of_memory (snd (append_to_buffer e it))")
  case True
  then show ?thesis
    using write_result_oom[OF True, of rest] by (simp add: RETURN_IF_eq write_result_def)
next
  case False
  then show ?thesis using assms by (simp add: RETURN_IF_eq write_result_def)
qed

lemma stage_loop:
  assumes loop: "loop e = (if out_of_memory (cbor_write_all e its) \<and> nonempty then LE_NO_MEMORY else LE_OK,
                      cbor_write_all e its)"
    and empty: "\<not> nonempty \<Longrightarrow> its = []"
    and start: "\<not> out_of_memory e"
    and k: "\<And>e'. \<not> out_of_memory e' \<Longrightarrow> k e' = write_result rest e'"
  shows "(case loop e of (result, e') \<Rightarrow> if result \<noteq> LE_OK then (result, e') else k e')
         = write_result (its @ rest) e"
proof (cases "out_of_memory (cbor_write_all e its)")
  case True
  then have ne: nonempty using empty start by (cases nonempty) auto
  show ?thesis
    using True ne loop write_result_oom[OF True, of rest]
    by (simp add: write_result_def cbor_write_all_append)
next
  case False
  then show ?thesis using loop k[OF False]
    by (simp add: write_result_def cbor_write_all_append)
qed

lemma stage_samples:
  assumes wfl: "list_all resource_wf (resourceList recRef)"
  shows "(case append_to_buffer e it of
       (err, e) \<Rightarrow>
         case EncodeResourceDataToCborArray recRef e of
           (result, e) \<Rightarrow>
             if result \<noteq> LE_OK then (result, e)
             else RETURN_IF_CBOR_ERROR (err, e) (\<lambda>e. (result, e))) =
       write_result (it # sample_rows recRef (timestampList recRef) None) e"
proof -
  obtain err e10 where a: "append_to_buffer e it = (err, e10)"
    by (cases "append_to_buffer e it")
  let ?rows = "sample_rows recRef (timestampList recRef) None"
  let ?e11 = "cbor_write_all e10 ?rows"
  have err: "err = (if out_of_memory e10 then CborErrorOutOfMemory else CborNoError)"
    using a by (auto simp: append_to_buffer_def split: if_splits)
  have w: "write_result (it # ?rows) e = write_result ?rows e10"
    using a by (simp add: write_result_def)
  have samples: "EncodeResourceData_timestamps recRef (timestampList recRef) None LE_OK e10 =
     (if timestampList recRef = [] then LE_OK
      else if out_of_memory ?e11 then LE_NO_MEMORY else LE_OK, ?e11)"
    by (rule timestamps_eq[OF wfl]) simp
  show ?thesis
  proof (cases "out_of_memory e10")
    case True
    have "?e11 = e10" using True by (rule cbor_write_all_oom)
    then show ?thesis using a err True samples w
      by (simp add: EncodeResourceDataToCborArray_def RETURN_IF_CBOR_ERROR_def write_result_def)
  next
    case False
    show ?thesis using a err False samples w
      by (cases "timestampList recRef")
         (simp_all add: EncodeResourceDataToCborArray_def RETURN_IF_CBOR_ERROR_def write_result_def)
  qed
qed

lemma factor_array_eq:
  "RETURN_IF_CBOR_ERROR (append_to_buffer e it) (EncodeFactorToCborArray_loop rs) =
     (if out_of_memory (cbor_write_all e (it # map (\<lambda>r. CborDouble (DNat (factor r))) rs)) \<and> True
      then LE_NO_MEMORY else LE_OK,
      cbor_write_all e (it # map (\<lambda>r. CborDouble (DNat (factor r))) rs))"
proof (cases "out_of_memory (snd (append_to_buffer e it))")
  case True
  then show ?thesis using cbor_write_all_oom[OF True] by (simp add: RETURN_IF_eq)
next
  case False
  then show ?thesis by (cases rs) (simp_all add: RETURN_IF_eq factors_eq)
qed

lemma encoder_init_not_oom: "\<not> out_of_memory cbor_encoder_init"
  by (simp add: cbor_encoder_init_def)

lemma append_not_oom: "\<not> out_of_memory (snd (append_to_buffer e it)) \<Longrightarrow> \<not> out_of_memory e"
  by (auto simp: append_to_buffer_def split: if_splits)

lemma Encode_stream_eq:
  assumes wf: "record_wf recRef"
  shows "Encode_stream recRef = write_result (encode_items recRef) cbor_encoder_init"
proof -
  let ?rs = "resourceList recRef"
  have wfl: "list_all resource_wf ?rs" using wf by (simp add: record_wf_def)
  have items: "encode_items recRef =
     CborMap 3 # CborText ''h'' # CborArray (length ?rs) #
       (map (\<lambda>r. CborText (name r)) ?rs @
        (CborText ''f'' # CborArray (length ?rs + 1) # CborDouble (DNat (timestampFactor recRef)) #
          (map (\<lambda>r. CborDouble (DNat (factor r))) ?rs @
           (CborText ''s'' # CborArray ((length ?rs + 1) * length (timestampList recRef)) #
              sample_rows recRef (timestampList recRef) None))))"
    by (simp add: encode_items_def NUM_TIME_SERIES_MAPS_def)
  show ?thesis
    unfolding items Encode_stream_def cbor_calls EncodeResourceNameToCborArray_def
      EncodeFactorToCborArray_def GetResourceCount_def GetTimestampCount_def
      NUM_TIME_SERIES_MAPS_def
    apply (rule stage_append)+
    apply (rule stage_loop[where nonempty = "?rs \<noteq> []"])
       apply (rule names_eq)
      apply simp
     apply assumption
    apply (rule stage_append)+
    apply (rule stage_loop[where nonempty = True and
          its = "CborDouble (DNat (timestampFactor recRef)) # map (\<lambda>r. CborDouble (DNat (factor r))) ?rs",
          simplified append_Cons])
       apply (rule factor_array_eq)
      apply simp
     apply assumption
    apply (rule stage_append)
    apply (rule stage_samples[OF wfl])
    done
qed

lemma Encode_eq:
  assumes "record_wf recRef" and "\<not> isEncoded recRef"
  shows "Encode recRef =
     (if cbor_buffer_size (encode_items recRef) \<le> MAX_CBOR_BUFFER_NUMBYTES
      then (LE_OK, recRef\<lparr>buffer := encode_items recRef, isEncoded := True\<rparr>)
      else (LE_NO_MEMORY,
            recRef\<lparr>buffer := written (cbor_write_all cbor_encoder_init (encode_items recRef))\<rparr>))"
proof (cases "cbor_buffer_size (encode_items recRef) \<le> MAX_CBOR_BUFFER_NUMBYTES")
  case True
  have "cbor_write_all cbor_encoder_init (encode_items recRef) =
        cbor_encoder_init\<lparr>written := encode_items recRef\<rparr>"
    using cbor_write_all_fits[of cbor_encoder_init "encode_items recRef"] True
    by (simp add: cbor_encoder_init_def cbor_buffer_size_def)
  then show ?thesis using assms True
    by (simp add: Encode_def Encode_stream_eq write_result_def cbor_encoder_init_def)
next
  case False
  have "out_of_memory (cbor_write_all cbor_encoder_init (encode_items recRef))"
    using cbor_write_all_overflows[of cbor_encoder_init "encode_items recRef"] False
    by (simp add: cbor_encoder_init_def cbor_buffer_size_def)
  then show ?thesis using assms False
    by (simp add: Encode_def Encode_stream_eq write_result_def)
qed


section \<open>Rows, well-formed records and the cached encoding\<close>

lemma length_sample_rows:
  "length (sample_rows recRef tss prev) = (length (resourceList recRef) + 1) * length tss"
  by (induction tss arbitrary: prev) simp_all

lemma sample_rows_nth:
  assumes "i < length tss" and "j < length (resourceList recRef)"
  shows "sample_rows recRef tss prev ! (i * (length (resourceList recRef) + 1) + 1 + j) =
           cell_item (resourceList recRef ! j) (tss ! i) (if i = 0 then prev else Some (tss ! (i - 1)))"
  using assms(1)
proof (induction tss arbitrary: i prev)
  case Nil
  then show ?case by simp
next
  case (Cons t tss)
  let ?n = "length (resourceList recRef)"
  let ?row = "timestamp_item (timestampFactor recRef) t prev
                # map (\<lambda>r. cell_item r t prev) (resourceList recRef)"
  have len: "length ?row = ?n + 1" by simp
  show ?case
  proof (cases i)
    case 0
    then show ?thesis using assms(2) by (simp add: nth_append)
  next
    case (Suc i')
    then have i': "i' < length tss" using Cons.prems by simp
    have idx: "i * (?n + 1) + 1 + j = length ?row + (i' * (?n + 1) + 1 + j)"
      using Suc by simp
    have "sample_rows recRef (t # tss) prev ! (i * (?n + 1) + 1 + j) =
          sample_rows recRef tss (Some t) ! (i' * (?n + 1) + 1 + j)"
      unfolding idx sample_rows.simps by (rule nth_append_length_plus)
    also have "\<dots> = cell_item (resourceList recRef ! j) (tss ! i')
                        (if i' = 0 then Some t else Some (tss ! (i' - 1)))"
      by (rule Cons.IH[OF i'])
    finally show ?thesis using Suc by (cases i') simp_all
  qed
qed

lemma sample_rows_timestamp_nth:
  assumes "i < length tss"
  shows "sample_rows recRef tss prev ! (i * (length (resourceList recRef) + 1)) =
           timestamp_item (timestampFactor recRef) (tss ! i)
             (if i = 0 then prev else Some (tss ! (i - 1)))"
  using assms
proof (induction tss arbitrary: i prev)
  case Nil
  then show ?case by simp
next
  case (Cons t tss)
  let ?n = "length (resourceList recRef)"
  let ?row = "timestamp_item (timestampFactor recRef) t prev
                # map (\<lambda>r. cell_item r t prev) (resourceList recRef)"
  show ?case
  proof (cases i)
    case 0
    then show ?thesis by simp
  next
    case (Suc i')
    then have i': "i' < length tss" using Cons.prems by simp
    have idx: "i * (?n + 1) = length ?row + i' * (?n + 1)"
      using Suc by simp
    have "sample_rows recRef (t # tss) prev ! (i * (?n + 1)) =
          sample_rows recRef tss (Some t) ! (i' * (?n + 1))"
      unfolding idx sample_rows.simps by (rule nth_append_length_plus)
    also have "\<dots> = timestamp_item (timestampFactor recRef) (tss ! i')
                        (if i' = 0 then Some t else Some (tss ! (i' - 1)))"
      by (rule Cons.IH[OF i'])
    finally show ?thesis using Suc by (cases i') simp_all
  qed
qed

lemma encode_items_cong [simp]:
  "encode_items (recRef\<lparr>buffer := b\<rparr>) = encode_items recRef"
  "encode_items (recRef\<lparr>isEncoded := x\<rparr>) = encode_items recRef"
proof -
  have "sample_rows (recRef\<lparr>buffer := b\<rparr>) tss prev = sample_rows recRef tss prev" for tss prev
    by (induction tss arbitrary: prev) simp_all
  then show "encode_items (recRef\<lparr>buffer := b\<rparr>) = encode_items recRef"
    by (simp add: encode_items_def)
  have "sample_rows (recRef\<lparr>isEncoded := x\<rparr>) tss prev = sample_rows recRef tss prev" for tss prev
    by (induction tss arbitrary: prev) simp_all
  then show "encode_items (recRef\<lparr>isEncoded := x\<rparr>) = encode_items recRef"
    by (simp add: encode_items_def)
qed

lemma record_wf_cong [simp]:
  "record_wf (recRef\<lparr>buffer := b\<rparr>) = record_wf recRef"
  "record_wf (recRef\<lparr>isEncoded := x\<rparr>) = record_wf recRef"
  "record_wf (recRef\<lparr>timestampList := l\<rparr>) = record_wf recRef"
  by (simp_all add: record_wf_def)

lemma Encode_OK_buffer:
  assumes "record_wf recRef" and "cache_valid recRef" and "Encode recRef = (LE_OK, recRef')"
  shows "buffer recRef' = encode_items recRef
       \<and> recRef' = recRef\<lparr>buffer := encode_items recRef, isEncoded := True\<rparr>
       \<and> cbor_buffer_size (encode_items recRef) \<le> MAX_CBOR_BUFFER_NUMBYTES"
proof (cases "isEncoded recRef")
  case True
  then have "recRef' = recRef" using assms(3) by (simp add: Encode_def)
  moreover have "buffer recRef = encode_items recRef"
    "cbor_buffer_size (encode_items recRef) \<le> MAX_CBOR_BUFFER_NUMBYTES"
    using True assms(2) by (simp_all add: cache_valid_def)
  moreover have "recRef\<lparr>buffer := buffer recRef, isEncoded := True\<rparr> = recRef" using True by simp
  ultimately show ?thesis by simp
next
  case False
  then show ?thesis using assms(3) Encode_eq[OF assms(1) False]
    by (auto split: if_splits)
qed


lemma add_sample_eq:
  "add_sample P S recRef path v ts =
     timeSeries_Add P (sample_type v) (\<lambda>rec i. AddResourceData rec i (sample_data S v) ts)
       recRef path ts"
  by (cases v)
     (simp_all add: add_sample_def sample_type_def sample_data_def timeSeries_AddInt_def
        timeSeries_AddFloat_def timeSeries_AddBool_def timeSeries_AddString_def
        AddIntResourceData_def AddFloatResourceData_def AddBoolResourceData_def
        AddStringResourceData_def)

lemma sample_type_not_NONE: "sample_type v \<noteq> DATA_TYPE_NONE"
  by (cases v) (simp_all add: sample_type_def)

lemma DeleteResourceData_loop_wf:
  "list_all resource_wf rs \<Longrightarrow> list_all resource_wf (DeleteResourceData_loop rs path ts)"
  by (induction rs) (auto simp: Let_def resource_wf_def split: option.splits)

lemma DeleteData_wf:
  "record_wf recRef \<Longrightarrow> DeleteData recRef path ts = Some recRef' \<Longrightarrow> record_wf recRef'"
  by (auto simp: DeleteData_eq Let_def DeleteResourceData_def record_wf_def
      DeleteResourceData_loop_wf split: if_splits)

lemma list_update_wf:
  "list_all resource_wf rs \<Longrightarrow> i < length rs \<Longrightarrow>
   list_all resource_wf (rs[i := (rs ! i)\<lparr>data := d\<rparr>])"
  by (auto simp: list_all_length nth_list_update resource_wf_def)

lemma AddResourceData_wf:
  assumes "record_wf recRef" and "AddResourceData recRef i d ts = Some (res, recRef')"
  shows "record_wf recRef'"
proof (cases "GetTimestamp recRef ts")
  case None
  then show ?thesis using assms by (simp add: AddResourceData_def)
next
  case (Some t)
  then obtain r where r: "resource_at (resourceList recRef) i = Some r"
    using assms(2) by (auto simp: AddResourceData_def split: option.splits)
  then have i: "i < length (resourceList recRef)" "r = resourceList recRef ! i"
    by (auto simp: resource_at_nth split: if_splits)
  let ?rec1 = "recRef\<lparr>resourceList := (resourceList recRef)
                  [i := r\<lparr>data := le_hashmap_Put (data r) t d\<rparr>], isEncoded := False\<rparr>"
  have wf1: "record_wf ?rec1"
    using assms(1) i list_update_wf[of "resourceList recRef" i] by (simp add: record_wf_def)
  obtain res2 rec2 where e: "Encode ?rec1 = (res2, rec2)" by (cases "Encode ?rec1")
  have wf2: "record_wf rec2" using wf1 Encode_keeps(1)[OF e] by (simp add: record_wf_def)
  show ?thesis
    using assms(2) Some r e wf2 DeleteData_wf[OF wf2]
    by (auto simp: AddResourceData_def Let_def split: if_splits)
qed

lemma add_sample_wf:
  assumes "record_wf recRef" and "add_sample P S recRef path v ts = Some (res, recRef')"
  shows "record_wf recRef'"
proof -
  let ?ty = "sample_type v"
  let ?rec1 = "AddTimestamp recRef ts"
  have wf1: "record_wf ?rec1" using assms(1) by (simp add: record_wf_def)
  have ty: "?ty \<noteq> DATA_TYPE_NONE" by (rule sample_type_not_NONE)
  have add: "record_wf rec \<Longrightarrow> AddResourceData rec i (sample_data S v) ts = Some (res, recRef')
             \<Longrightarrow> record_wf recRef'" for rec i
    by (rule AddResourceData_wf)
  show ?thesis
  proof (cases "GetResourceData recRef path ?ty")
    case (Inr i)
    then show ?thesis using assms(2) add[OF wf1, of i]
      by (simp add: add_sample_eq timeSeries_Add_def)
  next
    case (Inl e)
    show ?thesis
    proof (cases "e = LE_FAULT")
      case True
      then show ?thesis using assms Inl by (simp add: add_sample_eq timeSeries_Add_def)
    next
      case False
      obtain cres rec2 where c: "CreateResourceData P ?rec1 path ?ty = (cres, rec2)"
        by (cases "CreateResourceData P ?rec1 path ?ty")
      have wf2: "record_wf rec2"
        using CreateResourceData_result[OF c] wf1 ty
        by (auto simp: record_wf_def resource_wf_def)
      show ?thesis
        using assms(2) Inl False c wf2 add[OF wf2]
        by (cases e) (auto simp: add_sample_eq timeSeries_Add_def Let_def split: sum.splits if_splits)
    qed
  qed
qed

lemma add_samples_wf:
  "record_wf recRef \<Longrightarrow> add_samples P S recRef calls = Some (results, recRef') \<Longrightarrow>
   record_wf recRef'"
proof (induction calls arbitrary: recRef results)
  case Nil
  then show ?case by simp
next
  case (Cons c calls)
  obtain path v ts where c: "c = (path, v, ts)" by (cases c)
  from Cons.prems(2) obtain res rec1 rest where
    s: "add_sample P S recRef path v ts = Some (res, rec1)"
    and r: "add_samples P S rec1 calls = Some (rest, recRef')"
    unfolding c by (auto split: option.splits prod.splits)
  have "record_wf rec1" using add_sample_wf[OF Cons.prems(1) s] .
  then show ?case using Cons.IH r by blast
qed

text \<open>
  The timestamp list never holds a timestamp twice: \<open>AddTimestamp\<close> inserts only what
  \<open>GetTimestamp\<close> does not find, and everything else only removes entries.
\<close>

lemma AddTimestamp_loop_distinct:
  "ts \<notin> set l \<Longrightarrow> distinct l \<Longrightarrow> distinct (AddTimestamp_loop l ts)"
  by (induction l ts rule: AddTimestamp_loop.induct) (auto simp: set_AddTimestamp_loop)

lemma AddTimestamp_distinct:
  "distinct (timestampList recRef) \<Longrightarrow> distinct (timestampList (AddTimestamp recRef ts))"
  by (auto simp: AddTimestamp_def GetTimestamp_def GetTimestamp_loop_None AddTimestamp_loop_distinct
      split: option.splits)

lemma DeleteData_distinct:
  "distinct (timestampList recRef) \<Longrightarrow> DeleteData recRef path ts = Some recRef' \<Longrightarrow>
   distinct (timestampList recRef')"
  by (auto simp: DeleteData_eq Let_def DeleteResourceData_def split: if_splits)

lemma AddResourceData_distinct:
  assumes "distinct (timestampList recRef)"
    and "AddResourceData recRef i d ts = Some (res, recRef')"
  shows "distinct (timestampList recRef')"
proof (cases "GetTimestamp recRef ts")
  case None
  then show ?thesis using assms by (simp add: AddResourceData_def)
next
  case (Some t)
  then obtain r where r: "resource_at (resourceList recRef) i = Some r"
    using assms(2) by (auto simp: AddResourceData_def split: option.splits)
  let ?rec1 = "recRef\<lparr>resourceList := (resourceList recRef)
                  [i := r\<lparr>data := le_hashmap_Put (data r) t d\<rparr>], isEncoded := False\<rparr>"
  obtain res2 rec2 where e: "Encode ?rec1 = (res2, rec2)" by (cases "Encode ?rec1")
  have d2: "distinct (timestampList rec2)" using assms(1) Encode_keeps(2)[OF e] by simp
  show ?thesis
    using assms(2) Some r e d2 DeleteData_distinct[OF d2]
    by (auto simp: AddResourceData_def Let_def split: if_splits)
qed

lemma add_sample_distinct:
  assumes "distinct (timestampList recRef)"
    and "add_sample P S recRef path v ts = Some (res, recRef')"
  shows "distinct (timestampList recRef')"
proof -
  let ?ty = "sample_type v"
  let ?rec1 = "AddTimestamp recRef ts"
  have d1: "distinct (timestampList ?rec1)" using assms(1) by (rule AddTimestamp_distinct)
  have add: "distinct (timestampList rec) \<Longrightarrow>
             AddResourceData rec i (sample_data S v) ts = Some (res, recRef')
             \<Longrightarrow> distinct (timestampList recRef')" for rec i
    by (rule AddResourceData_distinct)
  show ?thesis
  proof (cases "GetResourceData recRef path ?ty")
    case (Inr i)
    then show ?thesis using assms(2) add[OF d1, of i]
      by (simp add: add_sample_eq timeSeries_Add_def)
  next
    case (Inl e)
    show ?thesis
    proof (cases "e = LE_FAULT")
      case True
      then show ?thesis using assms Inl by (simp add: add_sample_eq timeSeries_Add_def)
    next
      case False
      obtain cres rec2 where c: "CreateResourceData P ?rec1 path ?ty = (cres, rec2)"
        by (cases "CreateResourceData P ?rec1 path ?ty")
      have d2: "distinct (timestampList rec2)"
        using CreateResourceData_result[OF c] d1 by auto
      show ?thesis
        using assms(2) Inl False c d2 add[OF d2]
        by (cases e) (auto simp: add_sample_eq timeSeries_Add_def Let_def split: sum.splits if_splits)
    qed
  qed
qed

lemma add_samples_distinct:
  "distinct (timestampList recRef) \<Longrightarrow> add_samples P S recRef calls = Some (results, recRef') \<Longrightarrow>
   distinct (timestampList recRef')"
proof (induction calls arbitrary: recRef results)
  case Nil
  then show ?case by simp
next
  case (Cons c calls)
  obtain path v ts where c: "c = (path, v, ts)" by (cases c)
  from Cons.prems(2) obtain res rec1 rest where
    s: "add_sample P S recRef path v ts = Some (res, rec1)"
    and r: "add_samples P S rec1 calls = Some (rest, recRef')"
    unfolding c by (auto split: option.splits prod.splits)
  have "distinct (timestampList rec1)" using add_sample_distinct[OF Cons.prems(1) s] .
  then show ?case using Cons.IH r by blast
qed

lemma timestamps_distinct_after_calls:
  "add_samples P S timeSeries_Create calls = Some (results, recRef) \<Longrightarrow>
   distinct (timestampList recRef)"
  using add_samples_distinct[of timeSeries_Create] by (simp add: timeSeries_Create_def)

lemma timeSeries_Create_wf: "record_wf timeSeries_Create"
  by (simp add: record_wf_def timeSeries_Create_def)

lemma timeSeries_Create_cache_valid: "cache_valid timeSeries_Create"
  by (simp add: cache_valid_def timeSeries_Create_def)

lemma AddResourceData_cache_valid:
  assumes "record_wf recRef" and "ts \<in> set (timestampList recRef)"
    and "AddResourceData recRef i d ts = Some (res, recRef')"
  shows "cache_valid recRef'"
proof -
  have g: "GetTimestamp recRef ts = Some ts"
    using assms(2) by (simp add: GetTimestamp_def GetTimestamp_loop_mem)
  obtain r where r: "resource_at (resourceList recRef) i = Some r"
    using assms(3) g by (auto simp: AddResourceData_def split: option.splits)
  then have i: "i < length (resourceList recRef)" "r = resourceList recRef ! i"
    by (auto simp: resource_at_nth split: if_splits)
  let ?rec1 = "recRef\<lparr>resourceList := (resourceList recRef)
                  [i := r\<lparr>data := le_hashmap_Put (data r) ts d\<rparr>], isEncoded := False\<rparr>"
  have wf1: "record_wf ?rec1"
    using assms(1) i list_update_wf[of "resourceList recRef" i] by (simp add: record_wf_def)
  have ne: "\<not> isEncoded ?rec1" by simp
  show ?thesis
    using assms(3) g r Encode_eq[OF wf1 ne]
    by (auto simp: AddResourceData_def Let_def cache_valid_def split: if_splits)
qed

lemma add_sample_FAULT_unchanged:
  assumes "add_sample P S recRef path v ts = Some (LE_FAULT, recRef')"
  shows "recRef' = recRef"
proof -
  have a: "ts \<in> set (timestampList rec) \<Longrightarrow>
           AddResourceData rec i (sample_data S v) ts = Some (res, rec') \<Longrightarrow> res \<noteq> LE_FAULT"
    for rec i res rec'
    using AddResourceData_result[of ts rec i "sample_data S v" res rec'] by auto
  have "timeSeries_Add P (sample_type v) (\<lambda>rec i. AddResourceData rec i (sample_data S v) ts)
          recRef path ts = Some (LE_FAULT, recRef')"
    using assms by (simp add: add_sample_eq)
  then show ?thesis
    using timeSeries_Add_FAULT_iff[where add = "\<lambda>rec i. AddResourceData rec i (sample_data S v) ts"
        and ts = ts and P = P and ty = "sample_type v" and recRef = recRef and path = path
        and recRef' = recRef'] a
    by blast
qed

lemma add_sample_cache_valid:
  assumes "record_wf recRef" and "cache_valid recRef"
    and "add_sample P S recRef path v ts = Some (res, recRef')"
    and "res = LE_OK \<or> res = LE_NO_MEMORY \<or> res = LE_FAULT"
  shows "cache_valid recRef'"
proof (cases "res = LE_FAULT")
  case True
  then show ?thesis using assms(2,3) add_sample_FAULT_unchanged by blast
next
  case nofault: False
  let ?ty = "sample_type v"
  let ?rec1 = "AddTimestamp recRef ts"
  have wf1: "record_wf ?rec1" using assms(1) by (simp add: record_wf_def)
  have ts1: "ts \<in> set (timestampList ?rec1)" by (simp add: set_AddTimestamp)
  show ?thesis
  proof (cases "GetResourceData recRef path ?ty")
    case (Inr i)
    then show ?thesis using assms(3) AddResourceData_cache_valid[OF wf1 ts1]
      by (simp add: add_sample_eq timeSeries_Add_def)
  next
    case (Inl e)
    then have nf: "e = LE_NOT_FOUND"
      using nofault assms(3) GetResourceData_Inl[OF Inl]
      by (auto simp: add_sample_eq timeSeries_Add_def)
    obtain cres rec2 where c: "CreateResourceData P ?rec1 path ?ty = (cres, rec2)"
      by (cases "CreateResourceData P ?rec1 path ?ty")
    have wf2: "record_wf rec2"
      using CreateResourceData_result[OF c] wf1 sample_type_not_NONE[of v]
      by (auto simp: record_wf_def resource_wf_def)
    have ts2: "ts \<in> set (timestampList rec2)"
      using CreateResourceData_result[OF c] ts1 by auto
    have cr: "cres = LE_OK \<or> cres = LE_OVERFLOW" using CreateResourceData_result[OF c] by auto
    show ?thesis
      using assms(3,4) nofault Inl nf c cr AddResourceData_cache_valid[OF wf2 ts2]
        GetResourceData_Inl[of rec2 path ?ty]
      by (auto simp: add_sample_eq timeSeries_Add_def Let_def split: sum.splits if_splits)
  qed
qed

section \<open>The example records are reached through the entry points\<close>

lemma single_sample_record_reached:
  "add_samples 511 255 timeSeries_Create [(''x'', IntSample 1, 10)]
   = Some ([LE_OK], single_sample_record)"
  by (simp add: eval_defs single_sample_record_def)

lemma example_record_reached:
  "add_samples 511 255 timeSeries_Create
     [(''x'', IntSample 1, 10), (''x'', IntSample 2, 20), (''y'', IntSample 9, 20)]
   = Some ([LE_OK, LE_OK, LE_OK], example_record)"
  by (simp add: eval_defs example_record_def)

lemma example_record_wf: "record_wf example_record" "cache_valid example_record"
  by (simp_all add: record_wf_def resource_wf_def cache_valid_def example_record_def
      encode_items_def cell_item_def value_item_def default_item_def timestamp_item_def
      previous_row_int_def eval_defs)

lemma zero_timestamp_record_reached:
  "add_samples 511 255 timeSeries_Create [(''x'', IntSample 1, 0)]
   = Some ([LE_OK], zero_timestamp_record)"
  by (simp add: eval_defs zero_timestamp_record_def)

section \<open>The layout of the encoded output\<close>

text \<open>
  The encoding of a record with well-formed resources whose cached encoding, if it has one,
  was made from its present lists: when the encoder succeeds, the output is one map of
  three members \<open>h\<close>, \<open>f\<close> and \<open>s\<close> in this order: \<open>h\<close> is an array with the names of the resources in the order of the
  resource list, \<open>f\<close> an array of one more element, the timestamp factor followed by
  the factor of each resource in the same order, and \<open>s\<close> an array with a timestamp and
  one item per resource for every timestamp.
\<close>

theorem encoded_layout:
  assumes "record_wf recRef" and "cache_valid recRef" and "Encode recRef = (LE_OK, recRef')"
  shows "\<exists>samples.
     buffer recRef' =
       [CborMap NUM_TIME_SERIES_MAPS, CborText ''h'', CborArray (length (resourceList recRef))]
       @ map (\<lambda>r. CborText (name r)) (resourceList recRef)
       @ [CborText ''f'', CborArray (length (resourceList recRef) + 1),
          CborDouble (DNat (timestampFactor recRef))]
       @ map (\<lambda>r. CborDouble (DNat (factor r))) (resourceList recRef)
       @ [CborText ''s'',
          CborArray ((length (resourceList recRef) + 1) * length (timestampList recRef))]
       @ samples
     \<and> length samples = (length (resourceList recRef) + 1) * length (timestampList recRef)"
  using Encode_OK_buffer[OF assms] length_sample_rows[of recRef "timestampList recRef" None]
  unfolding encode_items_def by blast

text \<open>On the example record: the theorem applied to a run of the encoder.\<close>

theorem encoded_layout_witness:
  "Encode (example_record\<lparr>isEncoded := False\<rparr>) = (LE_OK, example_record)
   \<and> (\<exists>samples. buffer example_record =
         [CborMap 3, CborText ''h'', CborArray 2, CborText ''x'', CborText ''y'',
          CborText ''f'', CborArray 3, CborDouble (DNat 1), CborDouble (DNat 1),
          CborDouble (DNat 1), CborText ''s'', CborArray 6] @ samples
        \<and> length samples = 6)"
proof -
  have e: "Encode (example_record\<lparr>isEncoded := False\<rparr>) = (LE_OK, example_record)"
    by (simp add: example_record_def eval_defs)
  have wf: "record_wf (example_record\<lparr>isEncoded := False\<rparr>)"
    by (simp add: record_wf_def resource_wf_def example_record_def)
  have cv: "cache_valid (example_record\<lparr>isEncoded := False\<rparr>)"
    by (simp add: cache_valid_def)
  show ?thesis
    using encoded_layout[OF wf cv e] e by (simp add: example_record_def)
qed

section \<open>The items of a row\<close>

text \<open>
  For such a record, with the 32 bit arithmetic of the code and the lookup of the table:
  in the encoded output, the item of resource \<open>j\<close> in the row of timestamp \<open>i\<close>
  is the default of the resource's type (0, 0.0, false, the empty string) when the resource
  has no value at that timestamp; when it has one, it is for int and float the value minus
  the value the resource has at the timestamp of the row before (0 when it has none
  there), times the factor, with no subtraction in the first row, and for bool and string
  the value itself.
\<close>

theorem encoded_cell_values:
  assumes "record_wf recRef" and "cache_valid recRef" and "Encode recRef = (LE_OK, recRef')"
    and "i < length (timestampList recRef)" and "j < length (resourceList recRef)"
  shows "let n = length (resourceList recRef);
             r = resourceList recRef ! j;
             t = timestampList recRef ! i;
             p = timestampList recRef ! (i - 1);
             item = buffer recRef' ! (8 + 2 * n + i * (n + 1) + 1 + j)
         in (le_hashmap_Get (data r) t = None \<longrightarrow> item = default_item (type r))
          \<and> (\<forall>cur. le_hashmap_Get (data r) t = Some cur \<longrightarrow>
               (type r = DATA_TYPE_INT \<longrightarrow>
                  item = CborInt (sint (int_times_factor
                           (if i = 0 then intValue cur else intValue cur - previous_row_int r p)
                           (factor r))))
             \<and> (type r = DATA_TYPE_FLOAT \<longrightarrow>
                  item = CborDouble (double_times_factor
                           (if i = 0 then floatValue cur
                            else DSub (floatValue cur) (previous_row_float r p))
                           (factor r)))
             \<and> (type r = DATA_TYPE_BOOL \<longrightarrow> item = CborBool (boolValue cur))
             \<and> (type r = DATA_TYPE_STRING \<longrightarrow> item = CborText (strValuePtr cur)))"
proof -
  let ?n = "length (resourceList recRef)"
  define pre where "pre = [CborMap NUM_TIME_SERIES_MAPS, CborText ''h'', CborArray ?n]
       @ map (\<lambda>r. CborText (name r)) (resourceList recRef)
       @ [CborText ''f'', CborArray (?n + 1), CborDouble (DNat (timestampFactor recRef))]
       @ map (\<lambda>r. CborDouble (DNat (factor r))) (resourceList recRef)
       @ [CborText ''s'', CborArray ((?n + 1) * length (timestampList recRef))]"
  define rows where "rows = sample_rows recRef (timestampList recRef) None"
  have b: "buffer recRef' = pre @ rows"
    using Encode_OK_buffer[OF assms(1-3)] by (simp add: encode_items_def pre_def rows_def)
  have len: "length pre = 8 + 2 * ?n" by (simp add: pre_def)
  have idx: "8 + 2 * ?n + i * (?n + 1) + 1 + j = length pre + (i * (?n + 1) + 1 + j)"
    using len by simp
  have "buffer recRef' ! (8 + 2 * ?n + i * (?n + 1) + 1 + j) = rows ! (i * (?n + 1) + 1 + j)"
    unfolding b idx by (rule nth_append_length_plus)
  also have "\<dots> = cell_item (resourceList recRef ! j) (timestampList recRef ! i)
                     (if i = 0 then None else Some (timestampList recRef ! (i - 1)))"
    unfolding rows_def by (rule sample_rows_nth[OF assms(4,5)])
  finally show ?thesis
    by (simp add: Let_def cell_item_def value_item_def)
qed

text \<open>On the example record of the specification: \<open>y\<close> has the default 0 in the
  row of timestamp 10 and its value 9 in the row of 20; \<open>x\<close> has the difference 1 there.\<close>

theorem encoded_cell_values_witness:
  "buffer example_record ! 14 = CborInt 0
   \<and> buffer example_record ! 16 = CborInt 1
   \<and> buffer example_record ! 17 = CborInt 9"
proof -
  have e: "Encode (example_record\<lparr>isEncoded := False\<rparr>) = (LE_OK, example_record)"
    by (simp add: example_record_def eval_defs)
  have wf: "record_wf (example_record\<lparr>isEncoded := False\<rparr>)"
    by (simp add: record_wf_def resource_wf_def example_record_def)
  have cv: "cache_valid (example_record\<lparr>isEncoded := False\<rparr>)"
    by (simp add: cache_valid_def)
  have i0: "0 < length (timestampList (example_record\<lparr>isEncoded := False\<rparr>))"
    and i1: "1 < length (timestampList (example_record\<lparr>isEncoded := False\<rparr>))"
    and j0: "0 < length (resourceList (example_record\<lparr>isEncoded := False\<rparr>))"
    and j1: "1 < length (resourceList (example_record\<lparr>isEncoded := False\<rparr>))"
    by (simp_all add: example_record_def)
  have a: "buffer example_record ! 14 = CborInt 0"
    using encoded_cell_values[OF wf cv e i0 j1]
    by (simp add: example_record_def Let_def default_item_def table_defs)
  have b: "buffer example_record ! 16 = CborInt 1"
    using encoded_cell_values[OF wf cv e i1 j0]
    by (simp add: example_record_def Let_def previous_row_int_def int_times_factor_def
        intValue_def table_defs)
  have c: "buffer example_record ! 17 = CborInt 9"
    using encoded_cell_values[OF wf cv e i1 j1]
    by (simp add: example_record_def Let_def previous_row_int_def int_times_factor_def
        intValue_def table_defs)
  show ?thesis using a b c by simp
qed

section \<open>Pushing\<close>

text \<open>
  C8.  \<open>timeSeries_PushRecord\<close>: when the record encodes and the send succeeds, the
  record is reset (no resources, no timestamps, timestamp factor 1, \<open>isEncoded\<close>
  cleared); when the send fails, resources, values, timestamps and factor are as before
  and the record holds the encoding that was sent, so that a second push sends the same
  data; when the record does not encode, nothing is sent and the lists are as before.
\<close>

theorem push_record_reset_or_kept:
  assumes "timeSeries_PushRecord deflate avcClient_Push recRef = (result, recRef')"
    and "Encode recRef = (encoded, recRef1)"
  shows "(encoded = LE_OK \<and> avcClient_Push (deflate (buffer recRef1)) = LE_OK \<longrightarrow>
            result = LE_OK \<and> resourceList recRef' = [] \<and> timestampList recRef' = []
            \<and> timestampFactor recRef' = 1 \<and> \<not> isEncoded recRef')
       \<and> (encoded = LE_OK \<and> avcClient_Push (deflate (buffer recRef1)) \<noteq> LE_OK \<longrightarrow>
            result = avcClient_Push (deflate (buffer recRef1))
            \<and> resourceList recRef' = resourceList recRef
            \<and> timestampList recRef' = timestampList recRef
            \<and> timestampFactor recRef' = timestampFactor recRef
            \<and> Encode recRef' = (LE_OK, recRef') \<and> buffer recRef' = buffer recRef1)
       \<and> (encoded \<noteq> LE_OK \<longrightarrow>
            result = encoded
            \<and> resourceList recRef' = resourceList recRef
            \<and> timestampList recRef' = timestampList recRef)"
proof -
  have l: "resourceList recRef1 = resourceList recRef" "timestampList recRef1 = timestampList recRef"
    "timestampFactor recRef1 = timestampFactor recRef"
    using Encode_keeps[OF assms(2)] by simp_all
  show ?thesis
  proof (cases "encoded = LE_OK")
    case True
    then have enc: "isEncoded recRef1" using assms(2) Encode_OK_isEncoded by simp
    show ?thesis
      using assms True l Encode_cached[OF enc] GetEncodedData_encoded[OF enc]
      by (auto simp: timeSeries_PushRecord_def Let_def
          ResetRecord_def ClearTimestamp_def ClearResource_def split: if_splits)
  next
    case False
    then show ?thesis using assms l
      by (auto simp: timeSeries_PushRecord_def)
  qed
qed

text \<open>C8, on the example record, with a send that succeeds and one that fails.\<close>

theorem push_record_reset_or_kept_witness:
  "timeSeries_PushRecord (\<lambda>b. b) (\<lambda>b. LE_OK) example_record
     = (LE_OK, example_record\<lparr>timestampList := [], resourceList := [], isEncoded := False\<rparr>)
   \<and> timeSeries_PushRecord (\<lambda>b. b) (\<lambda>b. LE_FAULT) example_record = (LE_FAULT, example_record)
   \<and> resourceList (snd (timeSeries_PushRecord (\<lambda>b. b) (\<lambda>b. LE_OK) example_record)) = []
   \<and> resourceList (snd (timeSeries_PushRecord (\<lambda>b. b) (\<lambda>b. LE_FAULT) example_record))
       = resourceList example_record"
proof -
  have e: "Encode example_record = (LE_OK, example_record)"
    by (simp add: Encode_def example_record_def)
  have p1: "timeSeries_PushRecord (\<lambda>b. b) (\<lambda>b. LE_OK) example_record
     = (LE_OK, example_record\<lparr>timestampList := [], resourceList := [], isEncoded := False\<rparr>)"
    unfolding timeSeries_PushRecord_def e
    by (simp add: ResetRecord_def ClearTimestamp_def ClearResource_def example_record_def)
  have p2: "timeSeries_PushRecord (\<lambda>b. b) (\<lambda>b. LE_FAULT) example_record = (LE_FAULT, example_record)"
    unfolding timeSeries_PushRecord_def e by simp
  show ?thesis
    using push_record_reset_or_kept[OF p1 e] push_record_reset_or_kept[OF p2 e] p1 p2
    by simp
qed

section \<open>Deleting a value and the resource that held it\<close>




section \<open>What a successful call leaves behind\<close>

lemma takeWhile_first:
  "j < length (takeWhile Q xs) \<Longrightarrow> Q (xs ! j)"
  by (induction xs arbitrary: j) (auto simp: nth_Cons' split: if_splits)

lemma GetResourceData_Inr_first:
  assumes "GetResourceData recRef path ty = Inr i" and "j < i"
  shows "name (resourceList recRef ! j) \<noteq> path"
proof -
  have "i = length (takeWhile (\<lambda>r. name r \<noteq> path) (resourceList recRef))"
    using assms(1)
    by (auto simp: GetResourceData_def GetResourceData_loop_eq split: option.splits if_splits)
  then show ?thesis using takeWhile_first[of j "\<lambda>r. name r \<noteq> path"] assms(2) by simp
qed

lemma find_list_update_same:
  assumes "i < length xs" and "P (xs ! i)" and "\<forall>j<i. \<not> P (xs ! j)" and "P y"
  shows "find P (xs[i := y]) = Some y"
  unfolding find_Some_iff
  using assms by (intro exI[of _ i]) (auto simp: nth_list_update)

lemma add_sample_OK:
  assumes "add_sample P S recRef path v ts = Some (LE_OK, recRef')"
  shows "\<exists>rs i.
      (find (\<lambda>r. name r = path) (resourceList recRef) \<noteq> None \<and> rs = resourceList recRef
       \<or> find (\<lambda>r. name r = path) (resourceList recRef) = None
         \<and> rs = resourceList recRef @
              [\<lparr>name = path, type = sample_type v, data = [],
                factor = (if sample_type v = DATA_TYPE_STRING \<or> sample_type v = DATA_TYPE_BOOL
                          then 0 else 1)\<rparr>])
      \<and> i < length rs \<and> name (rs ! i) = path \<and> type (rs ! i) = sample_type v
      \<and> (\<forall>j<i. name (rs ! j) \<noteq> path)
      \<and> resourceList recRef' =
          rs[i := (rs ! i)\<lparr>data := le_hashmap_Put (data (rs ! i)) ts (sample_data S v)\<rparr>]
      \<and> timestampList recRef' = timestampList (AddTimestamp recRef ts)
      \<and> timestampFactor recRef' = timestampFactor recRef
      \<and> isEncoded recRef'"
proof -
  let ?ty = "sample_type v"
  let ?d = "sample_data S v"
  let ?rec1 = "AddTimestamp recRef ts"
  have ts1: "ts \<in> set (timestampList ?rec1)" by (simp add: set_AddTimestamp)
  have a: "timeSeries_Add P ?ty (\<lambda>rec i. AddResourceData rec i ?d ts) recRef path ts
           = Some (LE_OK, recRef')"
    using assms by (simp add: add_sample_eq)
  show ?thesis
  proof (cases "GetResourceData recRef path ?ty")
    case (Inr i)
    have g: "GetResourceData ?rec1 path ?ty = Inr i" using Inr by (simp add: GetResourceData_def)
    have add: "AddResourceData ?rec1 i ?d ts = Some (LE_OK, recRef')"
      using a Inr by (simp add: timeSeries_Add_def)
    show ?thesis
      using AddResourceData_OK[OF ts1 add] GetResourceData_Inr[OF Inr]
        GetResourceData_Inr_first[OF Inr]
      by (intro exI[of _ "resourceList recRef"] exI[of _ i]) auto
  next
    case (Inl e)
    have nf: "e = LE_NOT_FOUND"
      using a Inl GetResourceData_Inl[OF Inl] by (auto simp: timeSeries_Add_def)
    then have none: "find (\<lambda>r. name r = path) (resourceList recRef) = None"
      using Inl GetResourceData_NOT_FOUND by simp
    obtain cres rec2 where c: "CreateResourceData P ?rec1 path ?ty = (cres, rec2)"
      by (cases "CreateResourceData P ?rec1 path ?ty")
    have cok: "cres = LE_OK" using a Inl nf c by (auto simp: timeSeries_Add_def Let_def split: if_splits)
    then obtain nm where rec2: "rec2 = ?rec1\<lparr>resourceList := resourceList ?rec1 @
        [\<lparr>name = nm, type = ?ty, data = [],
          factor = (if ?ty = DATA_TYPE_STRING \<or> ?ty = DATA_TYPE_BOOL then 0 else 1)\<rparr>]\<rparr>"
      using CreateResourceData_result[OF c] by auto
    have ts2: "ts \<in> set (timestampList rec2)" using ts1 rec2 by simp
    obtain i where g2: "GetResourceData rec2 path ?ty = Inr i"
      and add: "AddResourceData rec2 i ?d ts = Some (LE_OK, recRef')"
      using a Inl nf c cok GetResourceData_Inl[of rec2 path ?ty]
      by (auto simp: timeSeries_Add_def Let_def split: sum.splits)
    have nm: "nm = path"
      using GetResourceData_Inr[OF g2] none unfolding rec2
      by (auto simp: find_append_eq split: if_splits)
    show ?thesis
      using AddResourceData_OK[OF ts2 add] GetResourceData_Inr[OF g2] none
        GetResourceData_Inr_first[OF g2] unfolding rec2 nm
      by (intro exI[of _ "resourceList rec2"] exI[of _ i]) (auto simp: rec2 nm)
  qed
qed

lemma add_sample_OK_column:
  assumes "add_sample P S recRef path v ts = Some (LE_OK, recRef')"
  shows "\<exists>r. find (\<lambda>r. name r = path) (resourceList recRef') = Some r \<and> type r = sample_type v"
proof -
  from add_sample_OK[OF assms] obtain rs i where
    i: "i < length rs" "name (rs ! i) = path" "type (rs ! i) = sample_type v"
    and first: "\<forall>j<i. name (rs ! j) \<noteq> path"
    and r: "resourceList recRef' =
          rs[i := (rs ! i)\<lparr>data := le_hashmap_Put (data (rs ! i)) ts (sample_data S v)\<rparr>]"
    by blast
  have "find (\<lambda>r. name r = path) (resourceList recRef') =
        Some ((rs ! i)\<lparr>data := le_hashmap_Put (data (rs ! i)) ts (sample_data S v)\<rparr>)"
    unfolding r using i first
    by (intro find_list_update_same) auto
  then show ?thesis using i by simp
qed


section \<open>Type mismatch\<close>

text \<open>
  What one call does: a call that adds a sample returns \<open>LE_FAULT\<close> exactly when the record
  has a resource for the path whose type is not the type of the sample, and the record is
  then unchanged; and after a call that returns \<open>LE_OK\<close> the record has a resource for
  the path with the type of the sample.  The type is that of the resource the record holds
  at the call, not that of the first write of the path.
\<close>

theorem type_mismatch_iff:
  "(add_sample P S recRef path v ts = Some (LE_FAULT, recRef') \<longleftrightarrow>
      (\<exists>r. find (\<lambda>r. name r = path) (resourceList recRef) = Some r \<and> type r \<noteq> sample_type v)
      \<and> recRef' = recRef)
   \<and> (add_sample P S recRef path v ts = Some (LE_OK, recRef') \<longrightarrow>
      (\<exists>r. find (\<lambda>r. name r = path) (resourceList recRef') = Some r \<and> type r = sample_type v))"
proof -
  have a: "ts \<in> set (timestampList rec) \<Longrightarrow>
           AddResourceData rec i (sample_data S v) ts = Some (res, rec') \<Longrightarrow> res \<noteq> LE_FAULT"
    for rec i res rec'
    using AddResourceData_result[of ts rec i "sample_data S v" res rec'] by auto
  have "(timeSeries_Add P (sample_type v) (\<lambda>rec i. AddResourceData rec i (sample_data S v) ts)
          recRef path ts = Some (LE_FAULT, recRef')) \<longleftrightarrow>
        (\<exists>r. find (\<lambda>r. name r = path) (resourceList recRef) = Some r \<and> type r \<noteq> sample_type v)
        \<and> recRef' = recRef"
    using a by (rule timeSeries_Add_FAULT_iff)
  then show ?thesis
    using add_sample_OK_column[of P S recRef path v ts recRef'] by (simp add: add_sample_eq)
qed

text \<open>On the record that holds an int for \<open>x\<close>: a float for \<open>x\<close> is refused and
  the record is unchanged, an int is not refused.\<close>

theorem type_mismatch_iff_witness:
  "add_sample 511 255 single_sample_record ''x'' (FloatSample (DBits 0)) 20
     = Some (LE_FAULT, single_sample_record)
   \<and> add_sample 511 255 single_sample_record ''x'' (IntSample 7) 20 \<noteq> Some (LE_FAULT, single_sample_record)
   \<and> (\<exists>r. find (\<lambda>r. name r = ''x'') (resourceList single_sample_record) = Some r
          \<and> type r = DATA_TYPE_INT)"
proof -
  have r: "add_samples 511 255 timeSeries_Create [(''x'', IntSample 1, 10)]
             = Some ([LE_OK], single_sample_record)"
    by (rule single_sample_record_reached)
  then have ok: "add_sample 511 255 timeSeries_Create ''x'' (IntSample 1) 10
                   = Some (LE_OK, single_sample_record)"
    by (auto split: option.splits)
  show ?thesis
    using type_mismatch_iff[of 511 255 single_sample_record "''x''" "FloatSample (DBits 0)" 20
        single_sample_record]
      type_mismatch_iff[of 511 255 single_sample_record "''x''" "IntSample 7" 20
        single_sample_record]
      type_mismatch_iff[of 511 255 timeSeries_Create "''x''" "IntSample 1" 10
        single_sample_record] ok
    by (simp add: single_sample_record_def sample_type_def)
qed

section \<open>Timestamps that are equal as doubles\<close>






section \<open>A record at the capacity of the buffer\<close>

lemma length_long_value [simp]: "length long_value = 254"
  by (simp add: long_value_def)

lemma le_utf8_Copy_long_value [simp]: "le_utf8_Copy long_value 255 = (long_value, LE_OK)"
  by (simp add: le_utf8_Copy_def le_utf8_Copy_loop_ascii long_value_def)

lemma le_utf8_Copy_empty [simp]: "le_utf8_Copy [] n = ([], LE_OK)"
  by (simp add: le_utf8_Copy_def)

lemma long_value_not_empty [simp]: "long_value \<noteq> []" "[] \<noteq> long_value"
  by (auto simp: long_value_def)

lemma length_long_path [simp]: "length (long_path n) = n"
  by (simp add: long_path_def)

lemma long_path_eq_iff [simp]: "long_path m = long_path n \<longleftrightarrow> m = n"
  by (auto simp: long_path_def replicate_eq_replicate)

lemma long_path_neq_short [simp]:
  "1 < n \<Longrightarrow> long_path n \<noteq> [c]" "1 < n \<Longrightarrow> [c] \<noteq> long_path n"
  by (auto simp: long_path_def dest: arg_cong[where f = length])

lemma le_utf8_Copy_long_path [simp]:
  "n < 511 \<Longrightarrow> le_utf8_Copy (long_path n) 511 = (long_path n, LE_OK)"
  by (simp add: le_utf8_Copy_def le_utf8_Copy_loop_ascii long_path_def)

lemma le_utf8_Copy_y [simp]: "le_utf8_Copy ''y'' 511 = (''y'', LE_OK)"
  by (simp add: le_utf8_Copy_def le_utf8_NumBytesInChar_def)

lemmas step_defs =
  add_sample_def timeSeries_AddString_def timeSeries_Add_def GetResourceData_def
  AddTimestamp_def GetTimestamp_def CreateResourceData_def AddStringResourceData_def
  AddResourceData_def timeSeries_Create_def
  Encode_eq record_wf_def resource_wf_def encode_items_def cell_item_def value_item_def
  default_item_def timestamp_item_def uint_times_factor_def round_double_def
  strValuePtr_def cbor_buffer_size_def cbor_header_size_def MAX_CBOR_BUFFER_NUMBYTES_def
  NUM_TIME_SERIES_MAPS_def table_defs delete_defs


text \<open>
  C2.  The claim: a call that returns \<open>LE_NO_MEMORY\<close> leaves the record as it was before
  the call, also when the call overwrote a value that was already there, so that encoding
  gives the same output as before the call.  On the record built by \<open>capacity_calls\<close>
  (six resources, the last one \<open>y\<close> with an empty string at timestamp 1), writing a
  string of 254 characters for \<open>y\<close> at timestamp 1 overwrites the empty string, does not
  fit and returns \<open>LE_NO_MEMORY\<close>; the deletion that follows removes the value and with
  it the resource \<open>y\<close>, and the record encodes to an output of five resources.
\<close>

theorem overwrite_that_does_not_fit_removes_the_resource:
  "map_option (\<lambda>(results, recRef).
        (results, map name (resourceList recRef), timestampList recRef, buffer recRef))
     (add_samples 511 255 timeSeries_Create capacity_calls)
   = Some ([LE_OK, LE_OK, LE_OK, LE_OK, LE_OK, LE_OK],
           [long_path 497, long_path 498, long_path 499, long_path 500, long_path 501, ''y''],
           [1],
           [CborMap 3, CborText ''h'', CborArray 6,
            CborText (long_path 497), CborText (long_path 498), CborText (long_path 499),
            CborText (long_path 500), CborText (long_path 501), CborText ''y'',
            CborText ''f'', CborArray 7,
            CborDouble (DNat 1), CborDouble (DNat 0), CborDouble (DNat 0), CborDouble (DNat 0),
            CborDouble (DNat 0), CborDouble (DNat 0), CborDouble (DNat 0),
            CborText ''s'', CborArray 7, CborUInt 1,
            CborText long_value, CborText long_value, CborText long_value,
            CborText long_value, CborText long_value, CborText []])
   \<and> map_option (\<lambda>(results, recRef).
        (results, map name (resourceList recRef), timestampList recRef,
         fst (Encode recRef), buffer (snd (Encode recRef))))
     (add_samples 511 255 timeSeries_Create
        (capacity_calls @ [(''y'', StringSample long_value, 1)]))
   = Some ([LE_OK, LE_OK, LE_OK, LE_OK, LE_OK, LE_OK, LE_NO_MEMORY],
           [long_path 497, long_path 498, long_path 499, long_path 500, long_path 501],
           [1], LE_OK,
           [CborMap 3, CborText ''h'', CborArray 5,
            CborText (long_path 497), CborText (long_path 498), CborText (long_path 499),
            CborText (long_path 500), CborText (long_path 501),
            CborText ''f'', CborArray 6,
            CborDouble (DNat 1), CborDouble (DNat 0), CborDouble (DNat 0), CborDouble (DNat 0),
            CborDouble (DNat 0), CborDouble (DNat 0),
            CborText ''s'', CborArray 6, CborUInt 1,
            CborText long_value, CborText long_value, CborText long_value,
            CborText long_value, CborText long_value])"
  by (simp add: step_defs capacity_calls_def)

section \<open>The type of a path after its resource was removed\<close>

text \<open>
  C6.  The claim: once a path has been written with a type, every later call that writes
  it with another type returns \<open>LE_FAULT\<close>.  The type is kept in the resource, and the
  resource goes with its last value.  On the record built by \<open>capacity_calls\<close>, where
  \<open>y\<close> holds a string: the string of 254 characters for \<open>y\<close> at timestamp 1 does not
  fit, the deletion that follows removes the resource \<open>y\<close>, and the int written for
  \<open>y\<close> after that returns \<open>LE_OK\<close>; \<open>y\<close> is now an int resource.
\<close>

theorem other_type_accepted_after_resource_was_removed:
  "map_option (\<lambda>(results, recRef).
        (results, map (\<lambda>r. (name r, type r)) (resourceList recRef)))
     (add_samples 511 255 timeSeries_Create
        (capacity_calls @ [(''y'', StringSample long_value, 1), (''y'', IntSample 5, 1)]))
   = Some ([LE_OK, LE_OK, LE_OK, LE_OK, LE_OK, LE_OK, LE_NO_MEMORY, LE_OK],
           [(long_path 497, DATA_TYPE_STRING), (long_path 498, DATA_TYPE_STRING),
            (long_path 499, DATA_TYPE_STRING), (long_path 500, DATA_TYPE_STRING),
            (long_path 501, DATA_TYPE_STRING), (''y'', DATA_TYPE_INT)])"
  by (simp add: step_defs capacity_calls_def timeSeries_AddInt_def AddIntResourceData_def
       int_times_factor_def intValue_def previous_row_int_def)

end
